theory Spec2Isabelle
  imports Complex_Main "HOL-Library.Word" "HOL-Library.Monad_Syntax"
begin

unbundle bit_operations_syntax

section \<open>SPH water simulation engine (src/sph.js)\<close>

text \<open>
  Numbers. A JavaScript number is modelled as a \<^typ>\<open>real\<close>: rounding and overflow of
  IEEE doubles are not represented. The one way the engine can leave the finite numbers
  from finite inputs is a division by zero (\<open>Infinity\<close> or \<open>NaN\<close> in JavaScript); every
  division by a value that is not a constant therefore goes through \<open>fdiv\<close>, which
  returns \<open>None\<close> for a zero divisor, and the passes that divide return an option.
  \<open>None\<close> reads: the JavaScript result holds a non-finite number. The cell size of the
  hash, the one other divisor, is the constant \<open>H\<close> in the engine.

  Objects. Particles are JavaScript objects mutated in place and shared by reference
  between \<open>this.particles\<close> and the buckets of the spatial hash. The particle array is
  the store; a reference is an index into it, so \<open>pi === pj\<close> is equality of indices.

  \<open>spawnBlob\<close> and \<open>spawnGrid\<close> (lines 98-120) push objects built by \<open>createParticle\<close> at
  positions drawn with \<open>Math.random\<close>; a state with any particle list stands for their result.
\<close>

subsection \<open>Constants (lines 5-25)\<close>

definition H :: real where "H = 35"
definition H2 :: real where "H2 = H * H"
definition H4 :: real where "H4 = H2 * H2"
definition H8 :: real where "H8 = H4 * H4"

definition POLY6_COEFF :: real where "POLY6_COEFF = 4.0 / (pi * H ^ 8)"
definition SPIKY_GRAD_COEFF :: real where "SPIKY_GRAD_COEFF = - 10.0 / (pi * H ^ 5)"
definition VISC_LAP_COEFF :: real where "VISC_LAP_COEFF = 40.0 / (pi * H ^ 5)"

definition REST_DENSITY :: real where "REST_DENSITY = 1000"
definition GAS_CONSTANT :: real where "GAS_CONSTANT = 2000"
definition VISCOSITY :: real where "VISCOSITY = 250"
definition PARTICLE_MASS :: real where "PARTICLE_MASS = 65"
definition DT :: real where "DT = 0.0008"
definition DT_MAX :: real where "DT_MAX = 0.003"
definition SUBSTEPS :: nat where "SUBSTEPS = 4"
definition DAMPING :: real where "DAMPING = - 0.5"
definition PARTICLE_RADIUS :: real where "PARTICLE_RADIUS = 6"

definition fdiv :: "real \<Rightarrow> real \<Rightarrow> real option" where
  "fdiv a b = (if b = 0 then None else Some (a / b))"

subsection \<open>Particles and force samples\<close>

text \<open>The object built by \<open>createParticle\<close> (lines 88-96).\<close>

record particle =
  x :: real
  y :: real
  vx :: real
  vy :: real
  fx :: real
  fy :: real
  density :: real
  pressure :: real

definition createParticle :: "real \<Rightarrow> real \<Rightarrow> real \<Rightarrow> real \<Rightarrow> particle" where
  "createParticle px py pvx pvy =
     \<lparr>x = px, y = py, vx = pvx, vy = pvy, fx = 0, fy = 0, density = 0, pressure = 0\<rparr>"

text \<open>
  A hand force sample \<open>{x, y, vx, vy, radius}\<close> (line 80). Its fields \<open>x, y, vx, vy\<close> are
  written \<open>hx, hy, hvx, hvy\<close>, a record field being a global name. \<open>radius\<close> may be
  absent (\<open>undefined\<close>), which is \<open>None\<close>.
\<close>

record hand =
  hx :: real
  hy :: real
  hvx :: real
  hvy :: real
  radius :: "real option"

subsection \<open>SpatialHash (lines 27-68)\<close>

text \<open>
  The grid maps a key to a bucket of particle references, in insertion order. A key is the
  Int32 that \<open>^\<close> yields: each operand is an integer (a floor times an integer constant)
  and is reduced modulo \<open>2 ^ 32\<close> by ToInt32. \<open>cellSize\<close> is fixed at construction and is
  a parameter of the operations.
\<close>

type_synonym key = "32 word"
type_synonym grid = "key \<rightharpoonup> nat list"

definition clear :: grid where
  "clear = Map.empty"

definition cellKey :: "int \<Rightarrow> int \<Rightarrow> key" where
  "cellKey cx cy = word_of_int (cx * 73856093) XOR word_of_int (cy * 19349663)"

definition getKey :: "real \<Rightarrow> real \<Rightarrow> real \<Rightarrow> key" where
  "getKey cellSize px py =
     (let cx = \<lfloor>px / cellSize\<rfloor>; cy = \<lfloor>py / cellSize\<rfloor> in cellKey cx cy)"

definition bucket :: "grid \<Rightarrow> key \<Rightarrow> nat list" where
  "bucket g k = (case g k of None \<Rightarrow> [] | Some cell \<Rightarrow> cell)"

definition insert_hash :: "real \<Rightarrow> particle list \<Rightarrow> nat \<Rightarrow> grid \<Rightarrow> grid" where
  "insert_hash cellSize ps i g =
     (let k = getKey cellSize (x (ps ! i)) (y (ps ! i)) in g(k \<mapsto> bucket g k @ [i]))"

definition getNeighbors :: "real \<Rightarrow> grid \<Rightarrow> real \<Rightarrow> real \<Rightarrow> nat list" where
  "getNeighbors cellSize g px py =
     (let cx = \<lfloor>px / cellSize\<rfloor>; cy = \<lfloor>py / cellSize\<rfloor>
      in concat (map (\<lambda>dx. concat (map (\<lambda>dy. bucket g (cellKey (cx + dx) (cy + dy)))
                                       [- 1, 0, 1]))
                     [- 1, 0, 1]))"

text \<open>The rebuild loop of \<open>step\<close> (lines 258-261): clear, then insert every particle.\<close>

definition rebuild :: "real \<Rightarrow> particle list \<Rightarrow> grid" where
  "rebuild cellSize ps = fold (insert_hash cellSize ps) [0..<length ps] clear"

subsection \<open>SPHSimulation (lines 70-81, 83-86, 122-124, 269-275)\<close>

text \<open>
  The engine object. \<open>spatialHash\<close> is the grid of the one \<open>SpatialHash\<close> the engine owns,
  built with \<open>cellSize = H\<close> (line 77); \<open>gravity\<close> is the pair \<open>(gravity.x, gravity.y)\<close>.
\<close>

record sim =
  width :: real
  height :: real
  particles :: "particle list"
  gravity :: "real \<times> real"
  gravityEnabled :: bool
  spatialHash :: grid
  handForces :: "hand list"

definition SPHSimulation :: "real \<Rightarrow> real \<Rightarrow> sim" where
  "SPHSimulation w h =
     \<lparr>width = w, height = h, particles = [], gravity = (0, 400), gravityEnabled = True,
      spatialHash = clear, handForces = []\<rparr>"

definition resize :: "real \<Rightarrow> real \<Rightarrow> sim \<Rightarrow> sim" where
  "resize w h s = s\<lparr>width := w, height := h\<rparr>"

definition setHandForces :: "hand list \<Rightarrow> sim \<Rightarrow> sim" where
  "setHandForces forces s = s\<lparr>handForces := forces\<rparr>"

definition getParticleCount :: "sim \<Rightarrow> nat" where
  "getParticleCount s = length (particles s)"

definition reset :: "sim \<Rightarrow> sim" where
  "reset s = s\<lparr>particles := []\<rparr>"

subsection \<open>Loops over the particle array\<close>

text \<open>
  \<open>for_each f js st\<close> runs \<open>f j\<close> on the state for each \<open>j\<close> of \<open>js\<close> in order and stops
  with \<open>None\<close> at the first division by zero. \<open>for_particles f ps\<close> is the loop
  \<open>for (i = 0; i < particles.length; i++)\<close> whose body computes the new fields of
  \<open>particles[i]\<close> from the array and writes them to that object only.
\<close>

fun for_each :: "('a \<Rightarrow> 'b \<Rightarrow> 'b option) \<Rightarrow> 'a list \<Rightarrow> 'b \<Rightarrow> 'b option" where
  "for_each f [] st = Some st"
| "for_each f (j # js) st = (case f j st of None \<Rightarrow> None | Some st' \<Rightarrow> for_each f js st')"

definition write_back :: "(particle list \<Rightarrow> nat \<Rightarrow> particle option) \<Rightarrow> nat \<Rightarrow> particle list
    \<Rightarrow> particle list option" where
  "write_back f i ps = (case f ps i of None \<Rightarrow> None | Some p \<Rightarrow> Some (ps[i := p]))"

definition for_particles :: "(particle list \<Rightarrow> nat \<Rightarrow> particle option) \<Rightarrow> particle list
    \<Rightarrow> particle list option" where
  "for_particles f ps = for_each (write_back f) [0..<length ps] ps"

subsection \<open>computeDensityPressure (lines 126-149)\<close>

text \<open>
  One iteration of the inner loop (lines 136-144): \<open>pi.density +=\<close> writes the store, and
  \<open>pj\<close> may be the object \<open>pi\<close> itself.
\<close>

definition density_pair :: "nat \<Rightarrow> nat \<Rightarrow> particle list \<Rightarrow> particle list" where
  "density_pair i j ps =
     (let p_i = ps ! i; p_j = ps ! j;
          dx = x p_j - x p_i;
          dy = y p_j - y p_i;
          r2 = dx * dx + dy * dy
      in if r2 < H2
         then (let diff = H2 - r2
               in ps[i := p_i\<lparr>density := density p_i + PARTICLE_MASS * POLY6_COEFF * diff * diff * diff\<rparr>])
         else ps)"

text \<open>The body of the outer loop (lines 131-147).\<close>

definition density_particle :: "grid \<Rightarrow> nat \<Rightarrow> particle list \<Rightarrow> particle list" where
  "density_particle g i ps =
     (let ps1 = ps[i := (ps ! i)\<lparr>density := 0\<rparr>];
          neighbors = getNeighbors H g (x (ps1 ! i)) (y (ps1 ! i));
          ps2 = fold (density_pair i) neighbors ps1
      in ps2[i := (ps2 ! i)\<lparr>pressure := GAS_CONSTANT * (density (ps2 ! i) - REST_DENSITY)\<rparr>])"

definition computeDensityPressure :: "sim \<Rightarrow> sim" where
  "computeDensityPressure s =
     s\<lparr>particles := fold (density_particle (spatialHash s)) [0..<length (particles s)] (particles s)\<rparr>"

subsection \<open>computeForces (lines 151-217)\<close>

text \<open>
  One iteration of the neighbour loop (lines 164-185) on the local accumulators
  \<open>(fpx, fpy, fvx, fvy)\<close>.
\<close>

definition force_pair :: "particle list \<Rightarrow> nat \<Rightarrow> nat \<Rightarrow> real \<times> real \<times> real \<times> real
    \<Rightarrow> (real \<times> real \<times> real \<times> real) option" where
  "force_pair ps i j acc =
     (case acc of (fpx, fpy, fvx, fvy) \<Rightarrow>
        if i = j then Some acc
        else
          let p_i = ps ! i; p_j = ps ! j;
              dx = x p_j - x p_i;
              dy = y p_j - y p_i;
              r2 = dx * dx + dy * dy
          in if r2 < H2 \<and> r2 > 0.0001
             then (let r = sqrt r2; diff = H - r
                   in do {
                     q \<leftarrow> fdiv (SPIKY_GRAD_COEFF * diff * diff * (pressure p_i + pressure p_j))
                            (2 * density p_j + 0.0001);
                     let pressureScale = q * PARTICLE_MASS;
                     ux \<leftarrow> fdiv dx r;
                     uy \<leftarrow> fdiv dy r;
                     viscScale \<leftarrow> fdiv (VISC_LAP_COEFF * diff * VISCOSITY * PARTICLE_MASS)
                                    (density p_j + 0.0001);
                     Some (fpx + ux * pressureScale, fpy + uy * pressureScale,
                           fvx + (vx p_j - vx p_i) * viscScale,
                           fvy + (vy p_j - vy p_i) * viscScale)
                   })
             else Some acc)"

text \<open>\<open>hand.radius || 80\<close> (line 198): an absent or zero radius gives 80.\<close>

definition hRadius_of :: "hand \<Rightarrow> real" where
  "hRadius_of hnd = (case radius hnd of None \<Rightarrow> 80 | Some r \<Rightarrow> if r = 0 then 80 else r)"

text \<open>One iteration of the hand loop (lines 194-214) on the particle \<open>pi\<close>.\<close>

definition hand_force :: "hand \<Rightarrow> particle \<Rightarrow> particle option" where
  "hand_force hnd p =
     (let hdx = x p - hx hnd;
          hdy = y p - hy hnd;
          hDist2 = hdx * hdx + hdy * hdy;
          hRadius = hRadius_of hnd;
          hRadius2 = hRadius * hRadius
      in if hDist2 < hRadius2 \<and> hDist2 > 1
         then (let hDist = sqrt hDist2
               in do {
                 q \<leftarrow> fdiv hDist hRadius;
                 let influence = 1.0 - q;
                 let strength = 8000 * influence * influence;
                 ux \<leftarrow> fdiv hdx hDist;
                 uy \<leftarrow> fdiv hdy hDist;
                 let p1 = p\<lparr>fx := fx p + ux * strength * density p\<rparr>;
                 let p2 = p1\<lparr>fy := fy p1 + uy * strength * density p1\<rparr>;
                 let dragStrength = 3000 * influence;
                 let p3 = p2\<lparr>fx := fx p2 + (hvx hnd - vx p2) * dragStrength\<rparr>;
                 Some (p3\<lparr>fy := fy p3 + (hvy hnd - vy p3) * dragStrength\<rparr>)
               })
         else Some p)"

text \<open>
  The body of the particle loop (lines 158-215): the neighbour loop reads the store, then
  \<open>pi.fx\<close> and \<open>pi.fy\<close> are assigned and the hand loop adds to them.
\<close>

definition force_particle :: "grid \<Rightarrow> hand list \<Rightarrow> real \<Rightarrow> real \<Rightarrow> particle list \<Rightarrow> nat
    \<Rightarrow> particle option" where
  "force_particle g hands gx gy ps i =
     (let p_i = ps ! i;
          neighbors = getNeighbors H g (x p_i) (y p_i)
      in do {
        (fpx, fpy, fvx, fvy) \<leftarrow> for_each (force_pair ps i) neighbors (0, 0, 0, 0);
        let p1 = p_i\<lparr>fx := fpx + fvx + gx * density p_i\<rparr>;
        let p2 = p1\<lparr>fy := fpy + fvy + gy * density p1\<rparr>;
        for_each hand_force hands p2
      })"

definition computeForces :: "sim \<Rightarrow> sim option" where
  "computeForces s =
     (let gx = (if gravityEnabled s then fst (gravity s) else 0);
          gy = (if gravityEnabled s then snd (gravity s) else 0)
      in case for_particles (force_particle (spatialHash s) (handForces s) gx gy) (particles s) of
           None \<Rightarrow> None
         | Some ps \<Rightarrow> Some (s\<lparr>particles := ps\<rparr>))"

subsection \<open>integrate (lines 219-252)\<close>

text \<open>The body of the particle loop: the Euler update (lines 228-232) ...\<close>

definition euler :: "real \<Rightarrow> particle \<Rightarrow> particle option" where
  "euler dt p =
     do {
       ax \<leftarrow> fdiv (dt * fx p) (density p + 0.0001);
       let p1 = p\<lparr>vx := vx p + ax\<rparr>;
       ay \<leftarrow> fdiv (dt * fy p1) (density p1 + 0.0001);
       let p2 = p1\<lparr>vy := vy p1 + ay\<rparr>;
       let p3 = p2\<lparr>x := x p2 + dt * vx p2\<rparr>;
       Some (p3\<lparr>y := y p3 + dt * vy p3\<rparr>)
     }"

text \<open>... and the four boundary tests in their order (lines 235-250).\<close>

definition collide :: "real \<Rightarrow> real \<Rightarrow> particle \<Rightarrow> particle" where
  "collide w h p4 =
     (let p5 = (if x p4 < PARTICLE_RADIUS
                then p4\<lparr>x := PARTICLE_RADIUS, vx := vx p4 * DAMPING\<rparr> else p4);
          p6 = (if x p5 > w - PARTICLE_RADIUS
                then p5\<lparr>x := w - PARTICLE_RADIUS, vx := vx p5 * DAMPING\<rparr> else p5);
          p7 = (if y p6 < PARTICLE_RADIUS
                then p6\<lparr>y := PARTICLE_RADIUS, vy := vy p6 * DAMPING\<rparr> else p6)
      in if y p7 > h - PARTICLE_RADIUS
         then p7\<lparr>y := h - PARTICLE_RADIUS, vy := vy p7 * DAMPING\<rparr> else p7)"

definition integrate_particle :: "real \<Rightarrow> real \<Rightarrow> real \<Rightarrow> particle \<Rightarrow> particle option" where
  "integrate_particle dt w h p =
     (case euler dt p of None \<Rightarrow> None | Some p4 \<Rightarrow> Some (collide w h p4))"

definition integrate :: "real \<Rightarrow> sim \<Rightarrow> sim option" where
  "integrate dt s =
     (case for_particles (\<lambda>ps i. integrate_particle dt (width s) (height s) (ps ! i)) (particles s) of
        None \<Rightarrow> None
      | Some ps \<Rightarrow> Some (s\<lparr>particles := ps\<rparr>))"

subsection \<open>step (lines 254-267)\<close>

text \<open>One pass of the loop body: rebuild the hash, density and pressure, forces, integration.\<close>

definition substep :: "sim \<Rightarrow> sim option" where
  "substep s =
     (let s1 = s\<lparr>spatialHash := rebuild H (particles s)\<rparr>;
          s2 = computeDensityPressure s1
      in case computeForces s2 of None \<Rightarrow> None | Some s3 \<Rightarrow> integrate DT s3)"

fun substeps :: "nat \<Rightarrow> sim \<Rightarrow> sim option" where
  "substeps 0 s = Some s"
| "substeps (Suc n) s = (case substep s of None \<Rightarrow> None | Some s' \<Rightarrow> substeps n s')"

definition step :: "sim \<Rightarrow> sim option" where
  "step s = substeps SUBSTEPS s"

subsection \<open>Terms used to state the results\<close>

text \<open>
  The squared distance of two particles, the contribution of one neighbour at squared
  distance \<open>r2\<close> to a density (lines 141-144), its value at \<open>r2 = 0\<close>, and the sum of
  the contributions of a list of neighbours.
\<close>

definition dist2 :: "particle \<Rightarrow> particle \<Rightarrow> real" where
  "dist2 p q = (x q - x p) * (x q - x p) + (y q - y p) * (y q - y p)"

definition poly6 :: "real \<Rightarrow> real" where
  "poly6 r2 =
     (if r2 < H2 then PARTICLE_MASS * POLY6_COEFF * (H2 - r2) * (H2 - r2) * (H2 - r2) else 0)"

definition self_density :: real where
  "self_density = PARTICLE_MASS * POLY6_COEFF * H2 * H2 * H2"

definition density_sum :: "particle list \<Rightarrow> nat \<Rightarrow> nat list \<Rightarrow> real" where
  "density_sum ps i js = sum_list (map (\<lambda>j. poly6 (dist2 (ps ! i) (ps ! j))) js)"

definition with_density :: "grid \<Rightarrow> particle list \<Rightarrow> nat \<Rightarrow> particle" where
  "with_density g ps i =
     (let d = density_sum ps i (getNeighbors H g (x (ps ! i)) (y (ps ! i)))
      in (ps ! i)\<lparr>density := d, pressure := GAS_CONSTANT * (d - REST_DENSITY)\<rparr>)"

text \<open>
  Two particle objects that agree on every field the force pass reads
  (it writes \<open>fx\<close> and \<open>fy\<close> only).
\<close>

definition same_but_force :: "particle \<Rightarrow> particle \<Rightarrow> bool" where
  "same_but_force p q \<longleftrightarrow>
     x p = x q \<and> y p = y q \<and> vx p = vx q \<and> vy p = vy q \<and>
     density p = density q \<and> pressure p = pressure q"

text \<open>
  The distance of a particle from the centre of a force sample, and the hand loop
  (lines 193-215) in closed form, with the test of line 201 and the radius \<open>hRadius\<close> of
  line 198 as the code computes them: what one sample adds to \<open>pi.fx\<close> and \<open>pi.fy\<close>, and
  what a list of samples adds.
\<close>

definition hand_dist :: "hand \<Rightarrow> particle \<Rightarrow> real" where
  "hand_dist hnd p = sqrt ((x p - hx hnd) * (x p - hx hnd) + (y p - hy hnd) * (y p - hy hnd))"

definition loop_in_range :: "hand \<Rightarrow> particle \<Rightarrow> bool" where
  "loop_in_range hnd p \<longleftrightarrow>
     (let d2 = (x p - hx hnd) * (x p - hx hnd) + (y p - hy hnd) * (y p - hy hnd)
      in d2 < hRadius_of hnd * hRadius_of hnd \<and> d2 > 1)"

definition loop_influence :: "hand \<Rightarrow> particle \<Rightarrow> real" where
  "loop_influence hnd p = 1 - hand_dist hnd p / hRadius_of hnd"

definition loop_push :: "hand \<Rightarrow> particle \<Rightarrow> real \<times> real" where
  "loop_push hnd p =
     (let m = 8000 * (loop_influence hnd p)\<^sup>2 * density p
      in (m * ((x p - hx hnd) / hand_dist hnd p), m * ((y p - hy hnd) / hand_dist hnd p)))"

definition loop_drag :: "hand \<Rightarrow> particle \<Rightarrow> real \<times> real" where
  "loop_drag hnd p =
     (3000 * loop_influence hnd p * (hvx hnd - vx p),
      3000 * loop_influence hnd p * (hvy hnd - vy p))"

definition loop_total :: "hand list \<Rightarrow> particle \<Rightarrow> real \<times> real" where
  "loop_total hands p =
     (sum_list (map (\<lambda>hnd. fst (loop_push hnd p) + fst (loop_drag hnd p))
                    (filter (\<lambda>hnd. loop_in_range hnd p) hands)),
      sum_list (map (\<lambda>hnd. snd (loop_push hnd p) + snd (loop_drag hnd p))
                    (filter (\<lambda>hnd. loop_in_range hnd p) hands)))"

text \<open>
  The external-force coupling in the words of the specification, from the fields of the
  sample alone: the radius of a sample is its \<open>radius\<close>, and 80 when it has none; a sample acts
  on a particle whose distance \<open>d\<close> from the sample centre passes the radius check
  \<open>d < radius\<close> and lies above the floor \<open>d > 1\<close>; \<open>influence = 1 - d / radius\<close>; the push
  points away from the centre and has magnitude \<open>8000 * influence\<^sup>2 * density\<close>; the drag
  is \<open>3000 * influence\<close> times the velocity of the sample minus the velocity of the
  particle; the contributions of the samples add up.
\<close>

definition hand_radius :: "hand \<Rightarrow> real" where
  "hand_radius hnd = (case radius hnd of None \<Rightarrow> 80 | Some r \<Rightarrow> r)"

definition hand_in_range :: "hand \<Rightarrow> particle \<Rightarrow> bool" where
  "hand_in_range hnd p \<longleftrightarrow> 1 < hand_dist hnd p \<and> hand_dist hnd p < hand_radius hnd"

definition hand_influence :: "hand \<Rightarrow> particle \<Rightarrow> real" where
  "hand_influence hnd p = 1 - hand_dist hnd p / hand_radius hnd"

definition hand_push :: "hand \<Rightarrow> particle \<Rightarrow> real \<times> real" where
  "hand_push hnd p =
     (let m = 8000 * (hand_influence hnd p)\<^sup>2 * density p
      in (m * ((x p - hx hnd) / hand_dist hnd p), m * ((y p - hy hnd) / hand_dist hnd p)))"

definition hand_drag :: "hand \<Rightarrow> particle \<Rightarrow> real \<times> real" where
  "hand_drag hnd p =
     (3000 * hand_influence hnd p * (hvx hnd - vx p),
      3000 * hand_influence hnd p * (hvy hnd - vy p))"

definition hand_total :: "hand list \<Rightarrow> particle \<Rightarrow> real \<times> real" where
  "hand_total hands p =
     (sum_list (map (\<lambda>hnd. fst (hand_push hnd p) + fst (hand_drag hnd p))
                    (filter (\<lambda>hnd. hand_in_range hnd p) hands)),
      sum_list (map (\<lambda>hnd. snd (hand_push hnd p) + snd (hand_drag hnd p))
                    (filter (\<lambda>hnd. hand_in_range hnd p) hands)))"

text \<open>The accumulators \<open>(fpx, fpy, fvx, fvy)\<close> when the neighbour loop of particle \<open>i\<close> ends.\<close>

definition pair_sums :: "grid \<Rightarrow> particle list \<Rightarrow> nat \<Rightarrow> (real \<times> real \<times> real \<times> real) option" where
  "pair_sums g ps i =
     for_each (force_pair ps i) (getNeighbors H g (x (ps ! i)) (y (ps ! i))) (0, 0, 0, 0)"

text \<open>The gravity vector the force pass uses (lines 154-155).\<close>

definition active_gravity :: "sim \<Rightarrow> real \<times> real" where
  "active_gravity s =
     (if gravityEnabled s then fst (gravity s) else 0, if gravityEnabled s then snd (gravity s) else 0)"

text \<open>The hash holds exactly the current particle array, as after the rebuild loop of \<open>step\<close>.\<close>

definition hash_current :: "sim \<Rightarrow> bool" where
  "hash_current s \<longleftrightarrow> spatialHash s = rebuild H (particles s)"

text \<open>The keys of the nine cells that \<open>getNeighbors\<close> reads around the cell \<open>(cx, cy)\<close>, in its order.\<close>

definition block_keys :: "int \<Rightarrow> int \<Rightarrow> key list" where
  "block_keys cx cy =
     concat (map (\<lambda>dx. map (\<lambda>dy. cellKey (cx + dx) (cy + dy)) [- 1, 0, 1]) [- 1, 0, 1])"

subsection \<open>States used as examples\<close>

text \<open>
  A domain narrower than two particle radii with one particle at rest, before and after
  an integration pass; and a particle that reaches the left wall of a domain of 800 by 600.
\<close>

definition narrow :: sim where
  "narrow = (SPHSimulation 10 600)\<lparr>particles := [createParticle 3 100 0 0]\<rparr>"

definition narrow_after :: sim where
  "narrow_after = narrow\<lparr>particles := [(createParticle 3 100 0 0)\<lparr>x := 4\<rparr>]\<rparr>"

definition bouncing :: sim where
  "bouncing = (SPHSimulation 800 600)
     \<lparr>particles := [\<lparr>x = 7, y = 100, vx = - 2000, vy = 0, fx = 0, fy = 0, density = 1, pressure = 0\<rparr>]\<rparr>"

definition bouncing_after :: sim where
  "bouncing_after = bouncing
     \<lparr>particles := [\<lparr>x = 6, y = 100, vx = 1000, vy = 0, fx = 0, fy = 0, density = 1, pressure = 0\<rparr>]\<rparr>"

text \<open>Two particles at one position, in a hash that holds them.\<close>

definition twin :: sim where
  "twin = (SPHSimulation 800 600)
     \<lparr>particles := [createParticle 100 100 0 0, createParticle 100 100 0 0],
      spatialHash := rebuild H [createParticle 100 100 0 0, createParticle 100 100 0 0]\<rparr>"

text \<open>
  One particle of density 1 in a hash that holds it, gravity switched off and no force
  sample; the same state after the force pass; and a force sample without a radius, at
  distance 5 from that particle.
\<close>

definition lone :: particle where
  "lone = \<lparr>x = 100, y = 100, vx = 0, vy = 0, fx = 5, fy = 5, density = 1, pressure = 0\<rparr>"

definition lonely :: sim where
  "lonely = (SPHSimulation 800 600)
     \<lparr>particles := [lone], gravityEnabled := False, spatialHash := rebuild H [lone]\<rparr>"

definition lonely_after :: sim where
  "lonely_after = lonely\<lparr>particles := [lone\<lparr>fx := 0, fy := 0\<rparr>]\<rparr>"

definition sample :: hand where
  "sample = \<lparr>hx = 103, hy = 104, hvx = 10, hvy = 0, radius = None\<rparr>"

text \<open>
  Two samples of radius 50, one at distance 30 and one at distance 70 from that particle.
\<close>

definition sample_near :: hand where
  "sample_near = \<lparr>hx = 100, hy = 130, hvx = 0, hvy = 5, radius = Some 50\<rparr>"

definition sample_far :: hand where
  "sample_far = \<lparr>hx = 100, hy = 170, hvx = 7, hvy = 7, radius = Some 50\<rparr>"

text \<open>
  The scenario of two particles at \<open>(100, 100)\<close> and \<open>(105, 100)\<close>, at rest, gravity switched
  off, no force sample, in a domain of 800 by 600; the density, pressure, force and velocity
  that one substep computes for them; and the state after that substep.
\<close>

definition left_particle :: particle where
  "left_particle = createParticle 100 100 0 0"

definition right_particle :: particle where
  "right_particle = createParticle 105 100 0 0"

definition pair_state :: sim where
  "pair_state = (SPHSimulation 800 600)
     \<lparr>particles := [left_particle, right_particle], gravityEnabled := False\<rparr>"

definition pair_density :: real where
  "pair_density = poly6 0 + poly6 25"

definition pair_pressure :: real where
  "pair_pressure = GAS_CONSTANT * (pair_density - REST_DENSITY)"

definition pair_force :: real where
  "pair_force = SPIKY_GRAD_COEFF * 30 * 30 * (pair_pressure + pair_pressure)
                  / (2 * pair_density + 0.0001) * PARTICLE_MASS"

definition pair_velocity :: real where
  "pair_velocity = DT * pair_force / (pair_density + 0.0001)"

definition pair_after :: sim where
  "pair_after = pair_state
     \<lparr>particles :=
        [\<lparr>x = 100 + DT * pair_velocity, y = 100, vx = pair_velocity, vy = 0,
          fx = pair_force, fy = 0, density = pair_density, pressure = pair_pressure\<rparr>,
         \<lparr>x = 105 - DT * pair_velocity, y = 100, vx = - pair_velocity, vy = 0,
          fx = - pair_force, fy = 0, density = pair_density, pressure = pair_pressure\<rparr>],
      spatialHash := rebuild H [left_particle, right_particle]\<rparr>"

text \<open>The same scenario after the density pass and after the force pass.\<close>

definition pair_dense :: sim where
  "pair_dense = pair_state
     \<lparr>particles :=
        [left_particle\<lparr>density := pair_density, pressure := pair_pressure\<rparr>,
         right_particle\<lparr>density := pair_density, pressure := pair_pressure\<rparr>],
      spatialHash := rebuild H [left_particle, right_particle]\<rparr>"

definition pair_forced :: sim where
  "pair_forced = pair_dense
     \<lparr>particles :=
        [left_particle\<lparr>fx := pair_force, fy := 0, density := pair_density, pressure := pair_pressure\<rparr>,
         right_particle\<lparr>fx := - pair_force, fy := 0, density := pair_density,
            pressure := pair_pressure\<rparr>]\<rparr>"

text \<open>
  One particle alone, far from the origin, in a hash that holds it: its cell is
  \<open>(32399, 124734)\<close>.
\<close>

definition far_particle :: particle where
  "far_particle = createParticle 1133975 4365700 0 0"

definition far_state :: sim where
  "far_state = (SPHSimulation 800 600)
     \<lparr>particles := [far_particle], spatialHash := rebuild H [far_particle]\<rparr>"

section \<open>The spatial hash\<close>

lemma bucket_insert_hash:
  "bucket (insert_hash cs ps i g) k =
     (if k = getKey cs (x (ps ! i)) (y (ps ! i)) then bucket g k @ [i] else bucket g k)"
  by (simp add: insert_hash_def bucket_def Let_def)

lemma bucket_fold_insert:
  "set (bucket (fold (insert_hash cs ps) is g) k) =
     set (bucket g k) \<union> {i \<in> set is. getKey cs (x (ps ! i)) (y (ps ! i)) = k}"
  by (induction "is" arbitrary: g) (auto simp: bucket_insert_hash)

lemma bucket_clear: "bucket clear k = []"
  by (simp add: bucket_def clear_def)

lemma set_bucket_rebuild:
  "set (bucket (rebuild cs ps) k) =
     {i. i < length ps \<and> getKey cs (x (ps ! i)) (y (ps ! i)) = k}"
  unfolding rebuild_def bucket_fold_insert by (auto simp: bucket_clear)

lemma set_getNeighbors:
  "set (getNeighbors cs g px py) =
     (\<Union>dx \<in> {- 1, 0, 1}. \<Union>dy \<in> {- 1, 0, 1}.
        set (bucket g (cellKey (\<lfloor>px / cs\<rfloor> + dx) (\<lfloor>py / cs\<rfloor> + dy))))"
  by (auto simp: getNeighbors_def Let_def)

lemma floor_near:
  fixes a b :: real
  assumes "\<bar>a - b\<bar> < 1"
  shows "\<lfloor>a\<rfloor> - \<lfloor>b\<rfloor> \<in> {- 1, 0, 1}"
proof -
  have "\<lfloor>a\<rfloor> \<le> \<lfloor>b\<rfloor> + 1" "\<lfloor>b\<rfloor> \<le> \<lfloor>a\<rfloor> + 1"
    using assms by linarith+
  then show ?thesis by auto
qed

lemma cell_near:
  fixes a b cs :: real
  assumes "H \<le> cs" and "\<bar>a - b\<bar> < H"
  shows "\<lfloor>a / cs\<rfloor> - \<lfloor>b / cs\<rfloor> \<in> {- 1, 0, 1}"
proof -
  have pos: "0 < cs" using assms(1) by (simp add: H_def)
  have "\<bar>a / cs - b / cs\<bar> = \<bar>a - b\<bar> / cs"
    using pos by (simp add: diff_divide_distrib [symmetric])
  also have "\<dots> < 1" using assms pos by simp
  finally show ?thesis by (rule floor_near)
qed

lemma abs_less_of_dist:
  fixes a b :: real
  assumes "sqrt (a * a + b * b) < H"
  shows "\<bar>a\<bar> < H" and "\<bar>b\<bar> < H"
proof -
  have "sqrt (a * a) \<le> sqrt (a * a + b * b)"
    by (rule real_sqrt_le_mono) simp
  moreover have "sqrt (b * b) \<le> sqrt (a * a + b * b)"
    by (rule real_sqrt_le_mono) simp
  ultimately show "\<bar>a\<bar> < H" and "\<bar>b\<bar> < H"
    using assms by simp_all
qed

text \<open>
  C1. After the rebuild loop has inserted a particle collection into a hash whose cell
  size is at least the kernel radius \<open>H\<close>, \<open>getNeighbors\<close> at any query point returns
  every particle whose Euclidean distance from the point is below \<open>H\<close>. The key is the
  hash of the source, collisions included.
\<close>

theorem getNeighbors_no_false_negative:
  assumes "H \<le> cellSize"
    and "i < length ps"
    and "sqrt ((x (ps ! i) - qx) * (x (ps ! i) - qx) + (y (ps ! i) - qy) * (y (ps ! i) - qy)) < H"
  shows "i \<in> set (getNeighbors cellSize (rebuild cellSize ps) qx qy)"
proof -
  let ?cx = "\<lfloor>x (ps ! i) / cellSize\<rfloor>" and ?cy = "\<lfloor>y (ps ! i) / cellSize\<rfloor>"
  let ?qx = "\<lfloor>qx / cellSize\<rfloor>" and ?qy = "\<lfloor>qy / cellSize\<rfloor>"
  have dx: "?cx - ?qx \<in> {- 1, 0, 1}"
    using cell_near [OF assms(1) abs_less_of_dist(1) [OF assms(3)]] .
  have dy: "?cy - ?qy \<in> {- 1, 0, 1}"
    using cell_near [OF assms(1) abs_less_of_dist(2) [OF assms(3)]] .
  have "i \<in> set (bucket (rebuild cellSize ps) (cellKey (?qx + (?cx - ?qx)) (?qy + (?cy - ?qy))))"
    using assms(2) by (simp add: set_bucket_rebuild getKey_def Let_def)
  with dx dy show ?thesis
    unfolding set_getNeighbors by blast
qed

theorem getNeighbors_no_false_negative_witness:
  "0 \<in> set (getNeighbors H (rebuild H [createParticle 100 100 0 0, createParticle 105 100 0 0])
      105 100)"
proof -
  let ?ps = "[createParticle 100 100 0 0, createParticle 105 100 0 0]"
  have "sqrt ((x (?ps ! 0) - 105) * (x (?ps ! 0) - 105) + (y (?ps ! 0) - 100) * (y (?ps ! 0) - 100))
      = sqrt 25"
    by (simp add: createParticle_def)
  also have "\<dots> = 5" by (simp add: real_sqrt_unique)
  finally have "sqrt ((x (?ps ! 0) - 105) * (x (?ps ! 0) - 105)
      + (y (?ps ! 0) - 100) * (y (?ps ! 0) - 100)) < H"
    by (simp add: H_def)
  then show ?thesis
    using getNeighbors_no_false_negative [of H 0 ?ps 105 100] by simp
qed

section \<open>Loops\<close>

lemma for_each_append:
  "for_each f (as @ bs) st = (case for_each f as st of None \<Rightarrow> None | Some st' \<Rightarrow> for_each f bs st')"
  by (induction as arbitrary: st) (auto split: option.splits)

lemma for_each_snoc:
  "for_each f (as @ [b]) st = (case for_each f as st of None \<Rightarrow> None | Some st' \<Rightarrow> f b st')"
  by (simp add: for_each_append split: option.splits)

lemma for_particles_prefix:
  assumes stab: "\<And>n ps1. n < length ps \<Longrightarrow> length ps1 = length ps \<Longrightarrow>
      (\<forall>k<length ps. (k < n \<longrightarrow> F k = Some (ps1 ! k)) \<and> (n \<le> k \<longrightarrow> ps1 ! k = ps ! k)) \<Longrightarrow>
      f ps1 n = F n"
    and "n \<le> length ps"
  shows "for_each (write_back f) [0..<n] ps = Some ps' \<longleftrightarrow>
     length ps' = length ps \<and>
     (\<forall>k<length ps. (k < n \<longrightarrow> F k = Some (ps' ! k)) \<and> (n \<le> k \<longrightarrow> ps' ! k = ps ! k))"
  using assms(2)
proof (induction n arbitrary: ps')
  case 0
  show ?case by (auto simp: list_eq_iff_nth_eq)
next
  case (Suc n)
  have n: "n < length ps" "n \<le> length ps" using Suc.prems by simp_all
  let ?C = "\<lambda>m qs. length qs = length ps \<and>
     (\<forall>k<length ps. (k < m \<longrightarrow> F k = Some (qs ! k)) \<and> (m \<le> k \<longrightarrow> qs ! k = ps ! k))"
  have IH: "\<And>qs. for_each (write_back f) [0..<n] ps = Some qs \<longleftrightarrow> ?C n qs"
    using Suc.IH [OF n(2)] .
  show ?case
  proof
    assume "for_each (write_back f) [0..<Suc n] ps = Some ps'"
    then obtain ps1 where 1: "for_each (write_back f) [0..<n] ps = Some ps1"
      and 2: "write_back f n ps1 = Some ps'"
      by (auto simp: for_each_snoc split: option.splits)
    from 1 have c1: "?C n ps1" by (simp add: IH)
    then have "f ps1 n = F n" using stab [OF n(1)] by blast
    with 2 obtain p where p: "F n = Some p" "ps' = ps1[n := p]"
      by (auto simp: write_back_def split: option.splits)
    show "?C (Suc n) ps'"
    proof (intro conjI allI impI)
      show "length ps' = length ps" using p c1 by simp
    next
      fix k assume "k < length ps" "k < Suc n"
      then show "F k = Some (ps' ! k)"
        using p c1 n by (cases "k = n") auto
    next
      fix k assume "k < length ps" "Suc n \<le> k"
      then show "ps' ! k = ps ! k"
        using p c1 by auto
    qed
  next
    assume c: "?C (Suc n) ps'"
    let ?ps1 = "ps'[n := ps ! n]"
    have c1: "?C n ?ps1"
    proof (intro conjI allI impI)
      show "length ?ps1 = length ps" using c by simp
    next
      fix k assume "k < length ps" "k < n"
      then show "F k = Some (?ps1 ! k)" using c by auto
    next
      fix k assume "k < length ps" "n \<le> k"
      then show "?ps1 ! k = ps ! k" using c by (cases "k = n") auto
    qed
    then have 1: "for_each (write_back f) [0..<n] ps = Some ?ps1" by (simp add: IH)
    have "f ?ps1 n = F n" using stab [OF n(1)] c1 by blast
    moreover have "F n = Some (ps' ! n)" using c n by auto
    ultimately have "write_back f n ?ps1 = Some ps'"
      by (simp add: write_back_def)
    with 1 show "for_each (write_back f) [0..<Suc n] ps = Some ps'"
      by (simp add: for_each_snoc)
  qed
qed

lemma for_particles_iff:
  assumes stab: "\<And>n ps1. n < length ps \<Longrightarrow> length ps1 = length ps \<Longrightarrow>
      (\<forall>k<length ps. (k < n \<longrightarrow> F k = Some (ps1 ! k)) \<and> (n \<le> k \<longrightarrow> ps1 ! k = ps ! k)) \<Longrightarrow>
      f ps1 n = F n"
  shows "for_particles f ps = Some ps' \<longleftrightarrow>
     length ps' = length ps \<and> (\<forall>k<length ps. F k = Some (ps' ! k))"
proof -
  have "for_each (write_back f) [0..<length ps] ps = Some ps' \<longleftrightarrow>
     length ps' = length ps \<and>
     (\<forall>k<length ps. (k < length ps \<longrightarrow> F k = Some (ps' ! k)) \<and>
        (length ps \<le> k \<longrightarrow> ps' ! k = ps ! k))"
  proof (rule for_particles_prefix)
    fix n ps1
    assume "n < length ps" "length ps1 = length ps"
      "\<forall>k<length ps. (k < n \<longrightarrow> F k = Some (ps1 ! k)) \<and> (n \<le> k \<longrightarrow> ps1 ! k = ps ! k)"
    then show "f ps1 n = F n" by (rule stab)
  qed (rule order_refl)
  also have "\<dots> \<longleftrightarrow> length ps' = length ps \<and> (\<forall>k<length ps. F k = Some (ps' ! k))"
    by (intro conj_cong refl all_cong) simp
  finally show ?thesis by (simp only: for_particles_def)
qed

section \<open>Integration and boundaries\<close>

lemma integrate_loop_iff:
  "for_particles (\<lambda>ps i. integrate_particle dt w h (ps ! i)) ps = Some ps' \<longleftrightarrow>
        length ps' = length ps \<and>
        (\<forall>k<length ps. integrate_particle dt w h (ps ! k) = Some (ps' ! k))"
proof (rule for_particles_iff [where F = "\<lambda>k. integrate_particle dt w h (ps ! k)"])
  fix n ps1
  assume "n < length ps" and "length ps1 = length ps"
    and "\<forall>k<length ps. (k < n \<longrightarrow> integrate_particle dt w h (ps ! k) = Some (ps1 ! k)) \<and>
          (n \<le> k \<longrightarrow> ps1 ! k = ps ! k)"
  then have "ps1 ! n = ps ! n" by blast
  then show "integrate_particle dt w h (ps1 ! n) = integrate_particle dt w h (ps ! n)"
    by (rule arg_cong)
qed

lemma integrate_iff:
  "integrate dt s = Some s' \<longleftrightarrow>
     (\<exists>ps'. s' = s\<lparr>particles := ps'\<rparr> \<and> length ps' = length (particles s) \<and>
        (\<forall>k<length (particles s).
           integrate_particle dt (width s) (height s) (particles s ! k) = Some (ps' ! k)))"
proof -
  have "integrate dt s = Some s' \<longleftrightarrow>
      (\<exists>ps'. for_particles (\<lambda>ps i. integrate_particle dt (width s) (height s) (ps ! i))
          (particles s) = Some ps' \<and> s' = s\<lparr>particles := ps'\<rparr>)"
    by (auto simp: integrate_def split: option.splits)
  then show ?thesis
    unfolding integrate_loop_iff by blast
qed



lemma euler_Some_iff:
  "euler dt p = Some p4 \<longleftrightarrow>
     density p + 0.0001 \<noteq> 0 \<and>
     p4 = p\<lparr>vx := vx p + dt * fx p / (density p + 0.0001),
             vy := vy p + dt * fy p / (density p + 0.0001),
             x := x p + dt * (vx p + dt * fx p / (density p + 0.0001)),
             y := y p + dt * (vy p + dt * fy p / (density p + 0.0001))\<rparr>"
  by (auto simp: euler_def fdiv_def Let_def)

lemma collide_x:
  "x (collide w h p) =
     (let x2 = (if x p < PARTICLE_RADIUS then PARTICLE_RADIUS else x p)
      in if x2 > w - PARTICLE_RADIUS then w - PARTICLE_RADIUS else x2)"
  by (simp add: collide_def Let_def)


lemma collide_y:
  "y (collide w h p) =
     (let y2 = (if y p < PARTICLE_RADIUS then PARTICLE_RADIUS else y p)
      in if y2 > h - PARTICLE_RADIUS then h - PARTICLE_RADIUS else y2)"
  by (simp add: collide_def Let_def)


lemma collide_frame:
  "fx (collide w h p) = fx p" "fy (collide w h p) = fy p"
  "density (collide w h p) = density p" "pressure (collide w h p) = pressure p"
  by (simp_all add: collide_def Let_def)


lemma integrate_particle_Some:
  assumes "integrate_particle dt w h p = Some p'"
  obtains p4 where "euler dt p = Some p4" and "p' = collide w h p4"
  using assms by (auto simp: integrate_particle_def split: option.splits)

lemma integrate_nth:
  assumes "integrate dt s = Some s'" and "i < length (particles s)"
  shows "integrate_particle dt (width s) (height s) (particles s ! i) = Some (particles s' ! i)"
    and "length (particles s') = length (particles s)"
    and "width s' = width s" and "height s' = height s"
  using assms by (auto simp: integrate_iff)

lemma narrow_run: "integrate DT narrow = Some narrow_after"
  by (simp add: integrate_iff narrow_def narrow_after_def SPHSimulation_def createParticle_def
      integrate_particle_def euler_def collide_def fdiv_def DT_def PARTICLE_RADIUS_def
      DAMPING_def)

lemma bouncing_run: "integrate DT bouncing = Some bouncing_after"
  by (simp add: integrate_iff bouncing_def bouncing_after_def SPHSimulation_def
      integrate_particle_def euler_def collide_def fdiv_def DT_def PARTICLE_RADIUS_def
      DAMPING_def)

text \<open>
  C2, amended. In a domain at least two particle radii wide and high, after an integration
  pass that stays within the finite numbers every particle lies in
  \<open>[PARTICLE_RADIUS, width - PARTICLE_RADIUS] \<times> [PARTICLE_RADIUS, height - PARTICLE_RADIUS]\<close>,
  whatever the positions, velocities, forces and densities were before.
\<close>

theorem integrate_keeps_particles_in_domain:
  assumes "integrate dt s = Some s'"
    and "2 * PARTICLE_RADIUS \<le> width s" and "2 * PARTICLE_RADIUS \<le> height s"
    and "i < length (particles s')"
  shows "PARTICLE_RADIUS \<le> x (particles s' ! i) \<and>
         x (particles s' ! i) \<le> width s' - PARTICLE_RADIUS \<and>
         PARTICLE_RADIUS \<le> y (particles s' ! i) \<and>
         y (particles s' ! i) \<le> height s' - PARTICLE_RADIUS"
proof -
  have i: "i < length (particles s)"
    using assms(1,4) by (auto simp: integrate_iff)
  note n = integrate_nth [OF assms(1) i]
  from n(1) obtain p4 where p': "particles s' ! i = collide (width s) (height s) p4"
    by (rule integrate_particle_Some)
  show ?thesis
    using assms(2,3) unfolding p' n(3,4) collide_x collide_y
    by (simp add: Let_def)
qed

theorem integrate_keeps_particles_in_domain_witness:
  "PARTICLE_RADIUS \<le> x (particles bouncing_after ! 0) \<and>
   x (particles bouncing_after ! 0) \<le> width bouncing_after - PARTICLE_RADIUS \<and>
   PARTICLE_RADIUS \<le> y (particles bouncing_after ! 0) \<and>
   y (particles bouncing_after ! 0) \<le> height bouncing_after - PARTICLE_RADIUS"
proof (rule integrate_keeps_particles_in_domain [OF bouncing_run])
  show "2 * PARTICLE_RADIUS \<le> width bouncing"
    by (simp add: bouncing_def SPHSimulation_def PARTICLE_RADIUS_def)
  show "2 * PARTICLE_RADIUS \<le> height bouncing"
    by (simp add: bouncing_def SPHSimulation_def PARTICLE_RADIUS_def)
  show "0 < length (particles bouncing_after)"
    by (simp add: bouncing_after_def)
qed

text \<open>
  C2 as stated fails for a domain narrower than two particle radii: with width 10 a
  particle at \<open>x = 3\<close> is set to 6 by the low test and then to \<open>10 - 6 = 4\<close> by the high
  test, which is below \<open>PARTICLE_RADIUS\<close>.
\<close>

theorem integrate_narrow_domain_counterexample:
  "integrate DT narrow = Some narrow_after \<and>
   \<not> (PARTICLE_RADIUS \<le> x (particles narrow_after ! 0) \<and>
      x (particles narrow_after ! 0) \<le> width narrow_after - PARTICLE_RADIUS)"
  by (simp add: narrow_run) (simp add: narrow_after_def narrow_def PARTICLE_RADIUS_def)



section \<open>The density and pressure pass\<close>

lemma density_pair_eq:
  "density_pair i j ps =
     ps[i := (ps ! i)\<lparr>density := density (ps ! i) + poly6 (dist2 (ps ! i) (ps ! j))\<rparr>]"
  by (simp add: density_pair_def poly6_def dist2_def Let_def)

lemma dist2_update_density:
  assumes "i < length ps"
  shows "dist2 (ps[i := (ps ! i)\<lparr>density := d\<rparr>] ! k) (ps[i := (ps ! i)\<lparr>density := d\<rparr>] ! j)
       = dist2 (ps ! k) (ps ! j)"
proof -
  have "x (ps[i := (ps ! i)\<lparr>density := d\<rparr>] ! m) = x (ps ! m)"
       "y (ps[i := (ps ! i)\<lparr>density := d\<rparr>] ! m) = y (ps ! m)" for m
    using assms by (cases "m = i"; simp)+
  then show ?thesis by (simp add: dist2_def)
qed

lemma fold_density_pair:
  assumes "i < length ps"
  shows "fold (density_pair i) js ps =
     ps[i := (ps ! i)\<lparr>density := density (ps ! i) + density_sum ps i js\<rparr>]"
  using assms
proof (induction js arbitrary: ps)
  case Nil
  then show ?case by (simp add: density_sum_def)
next
  case (Cons j js)
  let ?d = "density (ps ! i) + poly6 (dist2 (ps ! i) (ps ! j))"
  let ?ps = "ps[i := (ps ! i)\<lparr>density := ?d\<rparr>]"
  have len: "i < length ?ps" using Cons.prems by simp
  have sum: "density_sum ?ps i js = density_sum ps i js"
    unfolding density_sum_def dist2_update_density [OF Cons.prems] ..
  have "fold (density_pair i) (j # js) ps = fold (density_pair i) js ?ps"
    by (simp add: density_pair_eq)
  also have "\<dots> = ?ps[i := (?ps ! i)\<lparr>density := density (?ps ! i) + density_sum ?ps i js\<rparr>]"
    by (rule Cons.IH [OF len])
  also have "\<dots> = ps[i := (ps ! i)\<lparr>density := density (ps ! i) + density_sum ps i (j # js)\<rparr>]"
    using Cons.prems by (simp add: sum) (simp add: density_sum_def add.assoc)
  finally show ?case .
qed

lemma density_particle_eq:
  assumes "i < length ps"
  shows "density_particle g i ps = ps[i := with_density g ps i]"
proof -
  let ?ps1 = "ps[i := (ps ! i)\<lparr>density := 0\<rparr>]"
  have 1: "i < length ?ps1" using assms by simp
  have s: "density_sum ?ps1 i js = density_sum ps i js" for js
    unfolding density_sum_def dist2_update_density [OF assms] ..
  show ?thesis
    unfolding density_particle_def Let_def fold_density_pair [OF 1] s
    using assms by (simp add: with_density_def Let_def)
qed


lemma with_density_frame:
  "x (with_density g ps i) = x (ps ! i)" "y (with_density g ps i) = y (ps ! i)"
  "vx (with_density g ps i) = vx (ps ! i)" "vy (with_density g ps i) = vy (ps ! i)"
  "fx (with_density g ps i) = fx (ps ! i)" "fy (with_density g ps i) = fy (ps ! i)"
  by (simp_all add: with_density_def Let_def)

lemma with_density_cong:
  assumes "ps1 ! i = ps ! i"
    and "\<And>j. j \<in> set (getNeighbors H g (x (ps ! i)) (y (ps ! i))) \<Longrightarrow>
           x (ps1 ! j) = x (ps ! j) \<and> y (ps1 ! j) = y (ps ! j)"
  shows "with_density g ps1 i = with_density g ps i"
proof -
  have "density_sum ps1 i (getNeighbors H g (x (ps ! i)) (y (ps ! i)))
      = density_sum ps i (getNeighbors H g (x (ps ! i)) (y (ps ! i)))"
    unfolding density_sum_def
    by (rule arg_cong [where f = sum_list], rule map_cong [OF refl])
       (simp add: dist2_def assms)
  then show ?thesis
    by (simp add: with_density_def assms(1))
qed

lemma density_loop_prefix:
  assumes range: "\<And>qx qy. set (getNeighbors H g qx qy) \<subseteq> {..<length ps}"
    and "n \<le> length ps"
  shows "length (fold (density_particle g) [0..<n] ps) = length ps \<and>
     (\<forall>k<length ps. fold (density_particle g) [0..<n] ps ! k =
        (if k < n then with_density g ps k else ps ! k))"
  using assms(2)
proof (induction n)
  case 0
  show ?case by simp
next
  case (Suc n)
  let ?ps1 = "fold (density_particle g) [0..<n] ps"
  have n: "n < length ps" using Suc.prems by simp
  have IH: "length ?ps1 = length ps"
    "\<And>k. k < length ps \<Longrightarrow> ?ps1 ! k = (if k < n then with_density g ps k else ps ! k)"
    using Suc.IH n by simp_all
  have pos: "x (?ps1 ! j) = x (ps ! j) \<and> y (?ps1 ! j) = y (ps ! j)" if "j < length ps" for j
    using IH(2) [OF that] by (simp add: with_density_frame)
  have same: "with_density g ?ps1 n = with_density g ps n"
  proof (rule with_density_cong)
    show "?ps1 ! n = ps ! n" using IH(2) [OF n] by simp
  next
    fix j assume "j \<in> set (getNeighbors H g (x (ps ! n)) (y (ps ! n)))"
    then have "j < length ps" using range by blast
    then show "x (?ps1 ! j) = x (ps ! j) \<and> y (?ps1 ! j) = y (ps ! j)" by (rule pos)
  qed
  have step: "fold (density_particle g) [0..<Suc n] ps = ?ps1[n := with_density g ps n]"
    using n by (simp add: density_particle_eq IH(1) same)
  show ?case
    unfolding step using IH n by (auto simp: nth_list_update)
qed

lemma computeDensityPressure_nth:
  assumes "\<And>qx qy. set (getNeighbors H (spatialHash s) qx qy) \<subseteq> {..<length (particles s)}"
    and "i < length (particles s)"
  shows "particles (computeDensityPressure s) ! i = with_density (spatialHash s) (particles s) i"
    and "length (particles (computeDensityPressure s)) = length (particles s)"
  using density_loop_prefix [of "spatialHash s" "particles s" "length (particles s)"] assms
  by (simp_all add: computeDensityPressure_def)

lemma computeDensityPressure_frame:
  "spatialHash (computeDensityPressure s) = spatialHash s"
  "handForces (computeDensityPressure s) = handForces s"
  "gravity (computeDensityPressure s) = gravity s"
  "gravityEnabled (computeDensityPressure s) = gravityEnabled s"
  "width (computeDensityPressure s) = width s"
  "height (computeDensityPressure s) = height s"
  by (simp_all add: computeDensityPressure_def)

lemma getNeighbors_rebuild_range:
  "set (getNeighbors cs (rebuild cs ps) qx qy) \<subseteq> {..<length ps}"
  by (auto simp: set_getNeighbors set_bucket_rebuild)

lemma getNeighbors_rebuild_self:
  assumes "i < length ps"
  shows "i \<in> set (getNeighbors cs (rebuild cs ps) (x (ps ! i)) (y (ps ! i)))"
proof -
  have "i \<in> set (bucket (rebuild cs ps)
      (cellKey (\<lfloor>x (ps ! i) / cs\<rfloor> + 0) (\<lfloor>y (ps ! i) / cs\<rfloor> + 0)))"
    using assms by (simp add: set_bucket_rebuild getKey_def)
  then show ?thesis unfolding set_getNeighbors by blast
qed

lemma getNeighbors_rebuild_same_cell:
  assumes "j < length ps" and "x (ps ! j) = qx" and "y (ps ! j) = qy"
  shows "j \<in> set (getNeighbors cs (rebuild cs ps) qx qy)"
  using getNeighbors_rebuild_self [OF assms(1), of cs] assms(2,3) by simp


section \<open>The force pass\<close>

lemma hRadius_of_nonzero: "hRadius_of hnd \<noteq> 0"
  by (simp add: hRadius_of_def split: option.splits)

lemma push_drag_algebra:
  fixes u i dens w :: real
  shows "u * (8000 * i * i) * dens + w * (3000 * i) = 8000 * i\<^sup>2 * dens * u + 3000 * i * w"
  by (simp add: power2_eq_square)

lemma hand_force_eq:
  "hand_force hnd p =
     Some (if loop_in_range hnd p
           then p\<lparr>fx := fx p + (fst (loop_push hnd p) + fst (loop_drag hnd p)),
                  fy := fy p + (snd (loop_push hnd p) + snd (loop_drag hnd p))\<rparr>
           else p)"
proof (cases "loop_in_range hnd p")
  case False
  then have "\<not> ((x p - hx hnd) * (x p - hx hnd) + (y p - hy hnd) * (y p - hy hnd)
        < hRadius_of hnd * hRadius_of hnd \<and>
      (x p - hx hnd) * (x p - hx hnd) + (y p - hy hnd) * (y p - hy hnd) > 1)"
    by (simp add: loop_in_range_def Let_def)
  with False show ?thesis
    unfolding hand_force_def Let_def by (simp only: if_False)
next
  case True
  let ?d = "hand_dist hnd p" and ?R = "hRadius_of hnd"
  let ?i = "1 - ?d / ?R"
  have c: "(x p - hx hnd) * (x p - hx hnd) + (y p - hy hnd) * (y p - hy hnd) < ?R * ?R \<and>
      (x p - hx hnd) * (x p - hx hnd) + (y p - hy hnd) * (y p - hy hnd) > 1"
    using True by (simp add: loop_in_range_def Let_def)
  then have "1 < ?d"
    unfolding hand_dist_def by (metis real_sqrt_gt_1_iff)
  then have d: "?d \<noteq> 0" by simp
  have R: "?R \<noteq> 0" by (rule hRadius_of_nonzero)
  have "hand_force hnd p =
      Some (p\<lparr>fx := fx p + ((x p - hx hnd) / ?d * (8000 * ?i * ?i) * density p
                              + (hvx hnd - vx p) * (3000 * ?i)),
               fy := fy p + ((y p - hy hnd) / ?d * (8000 * ?i * ?i) * density p
                              + (hvy hnd - vy p) * (3000 * ?i))\<rparr>)"
    unfolding hand_force_def Let_def hand_dist_def [symmetric]
    using c d R by (simp add: fdiv_def hand_dist_def [symmetric])
  also have "\<dots> = Some (p\<lparr>fx := fx p + (fst (loop_push hnd p) + fst (loop_drag hnd p)),
                  fy := fy p + (snd (loop_push hnd p) + snd (loop_drag hnd p))\<rparr>)"
    unfolding push_drag_algebra
    by (simp add: loop_push_def loop_drag_def loop_influence_def Let_def)
  finally show ?thesis using True by simp
qed


lemma same_but_force_refl: "same_but_force p p"
  by (simp add: same_but_force_def)

lemma same_but_force_update:
  "same_but_force (p\<lparr>fx := a, fy := b\<rparr>) p"
  by (simp add: same_but_force_def)

lemma same_but_force_set_force:
  assumes "same_but_force p q"
  shows "p\<lparr>fx := a, fy := b\<rparr> = q\<lparr>fx := a, fy := b\<rparr>"
  using assms by (intro particle.equality) (simp_all add: same_but_force_def)

lemma loop_total_cong:
  assumes "same_but_force p q"
  shows "loop_total hands p = loop_total hands q"
proof -
  have "loop_in_range hnd p = loop_in_range hnd q" "loop_push hnd p = loop_push hnd q"
       "loop_drag hnd p = loop_drag hnd q" for hnd
    using assms
    by (simp_all add: same_but_force_def loop_in_range_def loop_push_def loop_drag_def
        loop_influence_def hand_dist_def)
  then show ?thesis by (simp add: loop_total_def)
qed

lemma loop_total_Cons:
  "loop_total (hnd # hands) p =
     (if loop_in_range hnd p
      then (fst (loop_push hnd p) + fst (loop_drag hnd p) + fst (loop_total hands p),
            snd (loop_push hnd p) + snd (loop_drag hnd p) + snd (loop_total hands p))
      else loop_total hands p)"
  by (simp add: loop_total_def)

lemma hand_loop_eq:
  "for_each hand_force hands p =
     Some (p\<lparr>fx := fx p + fst (loop_total hands p), fy := fy p + snd (loop_total hands p)\<rparr>)"
proof (induction hands arbitrary: p)
  case Nil
  show ?case by (simp add: loop_total_def)
next
  case (Cons hnd hands)
  show ?case
  proof (cases "loop_in_range hnd p")
    case False
    then have "hand_force hnd p = Some p" by (simp add: hand_force_eq)
    with False show ?thesis by (simp add: Cons.IH loop_total_Cons)
  next
    case True
    let ?p1 = "p\<lparr>fx := fx p + (fst (loop_push hnd p) + fst (loop_drag hnd p)),
                  fy := fy p + (snd (loop_push hnd p) + snd (loop_drag hnd p))\<rparr>"
    have t: "loop_total hands ?p1 = loop_total hands p"
      by (rule loop_total_cong) (rule same_but_force_update)
    have "hand_force hnd p = Some ?p1" using True by (simp add: hand_force_eq)
    with True show ?thesis
      by (simp add: Cons.IH t loop_total_Cons add.assoc)
  qed
qed

lemma force_pair_cong:
  assumes "same_but_force (ps1 ! i) (ps ! i)" and "same_but_force (ps1 ! j) (ps ! j)"
  shows "force_pair ps1 i j acc = force_pair ps i j acc"
  using assms by (cases acc) (simp add: force_pair_def same_but_force_def Let_def)

lemma for_each_cong:
  assumes "\<And>j st. j \<in> set js \<Longrightarrow> f j st = g j st"
  shows "for_each f js st = for_each g js st"
  using assms by (induction js arbitrary: st) (simp_all split: option.splits)

lemma pair_sums_cong:
  assumes "length ps1 = length ps"
    and "\<And>k. k < length ps \<Longrightarrow> same_but_force (ps1 ! k) (ps ! k)"
    and "set (getNeighbors H g (x (ps ! i)) (y (ps ! i))) \<subseteq> {..<length ps}"
    and "i < length ps"
  shows "pair_sums g ps1 i = pair_sums g ps i"
proof -
  have xy: "x (ps1 ! i) = x (ps ! i)" "y (ps1 ! i) = y (ps ! i)"
    using assms(2) [OF assms(4)] by (simp_all add: same_but_force_def)
  show ?thesis
    unfolding pair_sums_def xy
  proof (rule for_each_cong)
    fix j st assume "j \<in> set (getNeighbors H g (x (ps ! i)) (y (ps ! i)))"
    then have "j < length ps" using assms(3) by blast
    then show "force_pair ps1 i j st = force_pair ps i j st"
      by (intro force_pair_cong assms(2) assms(4))
  qed
qed

lemma force_particle_eq:
  "force_particle g hands gx gy ps i =
     (case pair_sums g ps i of
        None \<Rightarrow> None
      | Some (fpx, fpy, fvx, fvy) \<Rightarrow>
          Some ((ps ! i)\<lparr>fx := fpx + fvx + gx * density (ps ! i) + fst (loop_total hands (ps ! i)),
                          fy := fpy + fvy + gy * density (ps ! i) + snd (loop_total hands (ps ! i))\<rparr>))"
proof (cases "pair_sums g ps i")
  case None
  then show ?thesis
    by (simp add: force_particle_def pair_sums_def Let_def)
next
  case (Some acc)
  obtain fpx fpy fvx fvy where acc: "acc = (fpx, fpy, fvx, fvy)"
    by (cases acc) auto
  let ?p2 = "(ps ! i)\<lparr>fx := fpx + fvx + gx * density (ps ! i),
                        fy := fpy + fvy + gy * density (ps ! i)\<rparr>"
  have t: "loop_total hands ?p2 = loop_total hands (ps ! i)"
    by (rule loop_total_cong) (rule same_but_force_update)
  have "force_particle g hands gx gy ps i = for_each hand_force hands ?p2"
    using Some acc by (simp add: force_particle_def pair_sums_def Let_def)
  then show ?thesis
    using Some acc by (simp add: hand_loop_eq t)
qed

lemma force_particle_frame:
  assumes "force_particle g hands gx gy ps i = Some p"
  shows "same_but_force p (ps ! i)"
  using assms
  by (auto simp: force_particle_eq same_but_force_def split: option.splits)

lemma force_particle_cong:
  assumes "length ps1 = length ps"
    and "\<And>k. k < length ps \<Longrightarrow> same_but_force (ps1 ! k) (ps ! k)"
    and "set (getNeighbors H g (x (ps ! i)) (y (ps ! i))) \<subseteq> {..<length ps}"
    and "i < length ps"
  shows "force_particle g hands gx gy ps1 i = force_particle g hands gx gy ps i"
proof -
  have s: "same_but_force (ps1 ! i) (ps ! i)" by (rule assms(2) [OF assms(4)])
  then have d: "density (ps1 ! i) = density (ps ! i)" by (simp add: same_but_force_def)
  have p: "pair_sums g ps1 i = pair_sums g ps i" by (rule pair_sums_cong [OF assms])
  show ?thesis
    by (simp add: force_particle_eq p loop_total_cong [OF s] d same_but_force_set_force [OF s]
        split: option.splits prod.splits)
qed

section \<open>The passes on a hash that holds the particle array\<close>

lemma rebuild_cong:
  assumes "length ps1 = length ps"
    and "\<And>k. k < length ps \<Longrightarrow> x (ps1 ! k) = x (ps ! k) \<and> y (ps1 ! k) = y (ps ! k)"
  shows "rebuild cs ps1 = rebuild cs ps"
  unfolding rebuild_def assms(1)
  by (rule fold_cong [OF refl refl]) (simp add: insert_hash_def assms(2) fun_eq_iff)

lemma hash_current_range:
  assumes "hash_current s"
  shows "set (getNeighbors H (spatialHash s) qx qy) \<subseteq> {..<length (particles s)}"
  using assms getNeighbors_rebuild_range [of H "particles s" qx qy]
  by (simp add: hash_current_def)

lemma hash_current_rebuild: "hash_current (s\<lparr>spatialHash := rebuild H (particles s)\<rparr>)"
  by (simp add: hash_current_def)

lemma computeDensityPressure_particle:
  assumes "hash_current s" and "i < length (particles s)"
  shows "particles (computeDensityPressure s) ! i = with_density (spatialHash s) (particles s) i"
  using computeDensityPressure_nth(1) [OF hash_current_range [OF assms(1)] assms(2)] .

lemma computeDensityPressure_length:
  assumes "hash_current s"
  shows "length (particles (computeDensityPressure s)) = length (particles s)"
  using density_loop_prefix [of "spatialHash s" "particles s" "length (particles s)"]
    hash_current_range [OF assms]
  by (simp add: computeDensityPressure_def)

lemma computeDensityPressure_hash_current:
  assumes "hash_current s"
  shows "hash_current (computeDensityPressure s)"
proof -
  have "rebuild H (particles (computeDensityPressure s)) = rebuild H (particles s)"
    by (rule rebuild_cong [OF computeDensityPressure_length [OF assms]])
       (simp add: computeDensityPressure_particle [OF assms] with_density_frame)
  then show ?thesis
    using assms by (simp add: hash_current_def computeDensityPressure_frame)
qed

lemma force_loop_iff:
  assumes range: "\<And>qx qy. set (getNeighbors H g qx qy) \<subseteq> {..<length ps}"
  shows "for_particles (force_particle g hands gx gy) ps = Some ps' \<longleftrightarrow>
     length ps' = length ps \<and> (\<forall>k<length ps. force_particle g hands gx gy ps k = Some (ps' ! k))"
proof (rule for_particles_iff [where F = "\<lambda>k. force_particle g hands gx gy ps k"])
  fix n ps1
  assume n: "n < length ps" and len: "length ps1 = length ps"
    and c: "\<forall>k<length ps. (k < n \<longrightarrow> force_particle g hands gx gy ps k = Some (ps1 ! k)) \<and>
          (n \<le> k \<longrightarrow> ps1 ! k = ps ! k)"
  have same: "same_but_force (ps1 ! k) (ps ! k)" if "k < length ps" for k
  proof (cases "k < n")
    case True
    with c that have "force_particle g hands gx gy ps k = Some (ps1 ! k)" by blast
    then show ?thesis by (rule force_particle_frame)
  next
    case False
    with c that have "ps1 ! k = ps ! k" by simp
    then show ?thesis by (simp add: same_but_force_refl)
  qed
  show "force_particle g hands gx gy ps1 n = force_particle g hands gx gy ps n"
    by (rule force_particle_cong [OF len same range n])
qed

lemma computeForces_iff:
  assumes "hash_current s"
  shows "computeForces s = Some s' \<longleftrightarrow>
     (\<exists>ps'. s' = s\<lparr>particles := ps'\<rparr> \<and> length ps' = length (particles s) \<and>
        (\<forall>k<length (particles s).
           force_particle (spatialHash s) (handForces s) (fst (active_gravity s))
             (snd (active_gravity s)) (particles s) k = Some (ps' ! k)))"
proof -
  have "computeForces s = Some s' \<longleftrightarrow>
      (\<exists>ps'. for_particles (force_particle (spatialHash s) (handForces s)
          (fst (active_gravity s)) (snd (active_gravity s))) (particles s) = Some ps' \<and>
        s' = s\<lparr>particles := ps'\<rparr>)"
    by (auto simp: computeForces_def active_gravity_def Let_def split: option.splits)
  then show ?thesis
    unfolding force_loop_iff [OF hash_current_range [OF assms]] by blast
qed


section \<open>Densities\<close>

lemma POLY6_COEFF_pos: "0 < POLY6_COEFF"
  by (simp add: POLY6_COEFF_def H_def)

lemma self_density_pos: "0 < self_density"
  using POLY6_COEFF_pos by (simp add: self_density_def PARTICLE_MASS_def H2_def H_def)

lemma poly6_nonneg: "0 \<le> poly6 r2"
  using POLY6_COEFF_pos by (simp add: poly6_def PARTICLE_MASS_def)

lemma poly6_0: "poly6 0 = self_density"
  by (simp add: poly6_def self_density_def H2_def H_def)

lemma dist2_same_position:
  assumes "x p = x q" and "y p = y q"
  shows "dist2 p q = 0"
  using assms by (simp add: dist2_def)

lemma sum_set_le_sum_list:
  fixes f :: "nat \<Rightarrow> real"
  assumes "\<And>k. k \<in> set js \<Longrightarrow> 0 \<le> f k"
  shows "sum f (set js) \<le> sum_list (map f js)"
  using assms
proof (induction js)
  case Nil
  show ?case by simp
next
  case (Cons a js)
  have IH: "sum f (set js) \<le> sum_list (map f js)" using Cons by simp
  have a: "0 \<le> f a" using Cons.prems by simp
  show ?case
  proof (cases "a \<in> set js")
    case True
    then have "set (a # js) = set js" by auto
    with IH a show ?thesis by simp
  next
    case False
    with IH show ?thesis by simp
  qed
qed

lemma density_sum_nonneg: "0 \<le> density_sum ps i js"
  unfolding density_sum_def by (rule sum_list_nonneg) (auto simp: poly6_nonneg)

lemma density_sum_ge_members:
  assumes "A \<subseteq> set js"
  shows "(\<Sum>j\<in>A. poly6 (dist2 (ps ! i) (ps ! j))) \<le> density_sum ps i js"
proof -
  have "(\<Sum>j\<in>A. poly6 (dist2 (ps ! i) (ps ! j))) \<le> (\<Sum>j\<in>set js. poly6 (dist2 (ps ! i) (ps ! j)))"
    by (rule sum_mono2) (use assms in \<open>auto simp: poly6_nonneg\<close>)
  also have "\<dots> \<le> density_sum ps i js"
    unfolding density_sum_def by (rule sum_set_le_sum_list) (rule poly6_nonneg)
  finally show ?thesis .
qed

lemma with_density_density:
  "density (with_density g ps i) = density_sum ps i (getNeighbors H g (x (ps ! i)) (y (ps ! i)))"
  "pressure (with_density g ps i) = GAS_CONSTANT * (density (with_density g ps i) - REST_DENSITY)"
  by (simp_all add: with_density_def Let_def)

lemma density_after_pass:
  assumes "hash_current s" and "i < length (particles s)"
  shows "density (particles (computeDensityPressure s) ! i) =
     density_sum (particles s) i
       (getNeighbors H (rebuild H (particles s)) (x (particles s ! i)) (y (particles s ! i)))"
  using assms by (simp add: computeDensityPressure_particle with_density_density hash_current_def)

lemma density_ge_self:
  assumes "hash_current s" and "i < length (particles s)"
  shows "self_density \<le> density (particles (computeDensityPressure s) ! i)"
proof -
  let ?ps = "particles s"
  let ?js = "getNeighbors H (rebuild H ?ps) (x (?ps ! i)) (y (?ps ! i))"
  have "{i} \<subseteq> set ?js" using getNeighbors_rebuild_self [OF assms(2)] by simp
  from density_sum_ge_members [OF this, of ?ps i]
  show ?thesis
    by (simp add: density_after_pass [OF assms] dist2_same_position poly6_0)
qed

lemma density_ge_twice_self:
  assumes "hash_current s" and "i < length (particles s)" and "j < length (particles s)"
    and "i \<noteq> j"
    and "x (particles s ! j) = x (particles s ! i)" and "y (particles s ! j) = y (particles s ! i)"
  shows "2 * self_density \<le> density (particles (computeDensityPressure s) ! i)"
proof -
  let ?ps = "particles s"
  let ?js = "getNeighbors H (rebuild H ?ps) (x (?ps ! i)) (y (?ps ! i))"
  have "{i, j} \<subseteq> set ?js"
    using getNeighbors_rebuild_self [OF assms(2)]
      getNeighbors_rebuild_same_cell [OF assms(3,5,6)] by simp
  from density_sum_ge_members [OF this, of ?ps i] assms(4)
  show ?thesis
    by (simp add: density_after_pass [OF assms(1,2)] dist2_same_position assms(5,6) poly6_0)
qed


section \<open>The force pass returns finite numbers\<close>

lemma force_pair_total:
  assumes "0 \<le> density (ps ! j)"
  shows "\<exists>acc'. force_pair ps i j acc = Some acc'"
  using assms by (cases acc) (auto simp: force_pair_def fdiv_def Let_def)

lemma force_pair_coincident:
  assumes "i \<noteq> j" and "x (ps ! j) = x (ps ! i)" and "y (ps ! j) = y (ps ! i)"
  shows "force_pair ps i j acc = Some acc"
  using assms by (cases acc) (simp add: force_pair_def Let_def)

lemma for_each_total:
  assumes "\<And>j st. j \<in> set js \<Longrightarrow> \<exists>st'. f j st = Some st'"
  shows "\<exists>st'. for_each f js st = Some st'"
  using assms
proof (induction js arbitrary: st)
  case Nil
  show ?case by simp
next
  case (Cons j js)
  from Cons.prems [of j st] obtain st1 where 1: "f j st = Some st1" by auto
  from Cons.IH [of st1] Cons.prems obtain st2 where "for_each f js st1 = Some st2" by auto
  with 1 show ?case by simp
qed

lemma force_particle_total:
  assumes "\<And>j. j \<in> set (getNeighbors H g (x (ps ! i)) (y (ps ! i))) \<Longrightarrow> 0 \<le> density (ps ! j)"
  shows "\<exists>p. force_particle g hands gx gy ps i = Some p"
proof -
  have "\<exists>acc. pair_sums g ps i = Some acc"
    unfolding pair_sums_def by (rule for_each_total) (rule force_pair_total, rule assms)
  then show ?thesis
    by (auto simp: force_particle_eq)
qed

lemma computeForces_total:
  assumes "hash_current s"
    and "\<And>k. k < length (particles s) \<Longrightarrow> 0 \<le> density (particles s ! k)"
  shows "\<exists>s'. computeForces s = Some s'"
proof -
  let ?F = "force_particle (spatialHash s) (handForces s) (fst (active_gravity s))
             (snd (active_gravity s)) (particles s)"
  have "\<exists>p. ?F k = Some p" for k
  proof (rule force_particle_total)
    fix j assume "j \<in> set (getNeighbors H (spatialHash s) (x (particles s ! k)) (y (particles s ! k)))"
    then have "j < length (particles s)" using hash_current_range [OF assms(1)] by blast
    then show "0 \<le> density (particles s ! j)" by (rule assms(2))
  qed
  then obtain P where P: "\<And>k. ?F k = Some (P k)" by metis
  let ?ps' = "map P [0..<length (particles s)]"
  have "computeForces s = Some (s\<lparr>particles := ?ps'\<rparr>)"
    unfolding computeForces_iff [OF assms(1)]
    by (rule exI [where x = ?ps']) (simp add: P)
  then show ?thesis ..
qed

lemma computeForces_frame:
  assumes "hash_current s" and "computeForces s = Some s'"
  shows "length (particles s') = length (particles s)"
    and "\<And>k. k < length (particles s) \<Longrightarrow> same_but_force (particles s' ! k) (particles s ! k)"
    and "width s' = width s" and "height s' = height s"
    and "handForces s' = handForces s" and "gravity s' = gravity s"
    and "gravityEnabled s' = gravityEnabled s" and "spatialHash s' = spatialHash s"
proof -
  from assms obtain ps' where s': "s' = s\<lparr>particles := ps'\<rparr>"
    and len: "length ps' = length (particles s)"
    and F: "\<And>k. k < length (particles s) \<Longrightarrow>
       force_particle (spatialHash s) (handForces s) (fst (active_gravity s))
             (snd (active_gravity s)) (particles s) k = Some (ps' ! k)"
    unfolding computeForces_iff [OF assms(1)] by blast
  show "length (particles s') = length (particles s)" using s' len by simp
  show "same_but_force (particles s' ! k) (particles s ! k)" if "k < length (particles s)" for k
    using force_particle_frame [OF F [OF that]] s' by simp
  show "width s' = width s" "height s' = height s" "handForces s' = handForces s"
    "gravity s' = gravity s" "gravityEnabled s' = gravityEnabled s" "spatialHash s' = spatialHash s"
    using s' by simp_all
qed

lemma computeForces_after_density:
  assumes "hash_current s"
  shows "\<exists>s'. computeForces (computeDensityPressure s) = Some s'"
proof (rule computeForces_total)
  show "hash_current (computeDensityPressure s)"
    by (rule computeDensityPressure_hash_current [OF assms])
next
  fix k assume "k < length (particles (computeDensityPressure s))"
  then have k: "k < length (particles s)"
    by (simp add: computeDensityPressure_length [OF assms])
  show "0 \<le> density (particles (computeDensityPressure s) ! k)"
    using density_ge_self [OF assms k] self_density_pos by linarith
qed


lemma twin_hash_current: "hash_current twin"
  by (simp add: hash_current_def twin_def)

text \<open>
  C10. When the hash holds every particle of the collection, after
  \<open>computeDensityPressure\<close> every density is at least the self-contribution
  \<open>PARTICLE_MASS * POLY6_COEFF * (H2)\<^sup>3\<close>, which is positive; so the denominators
  \<open>density + 0.0001\<close> and \<open>2 * density + 0.0001\<close> of the force pass exceed \<open>0.0001\<close>, and
  the force pass, which returns finite numbers, leaves the densities to the integration
  pass as they are.
\<close>

theorem density_bounded_away_from_zero:
  assumes "hash_current s" and "i < length (particles s)"
  shows "self_density = PARTICLE_MASS * POLY6_COEFF * H2 * H2 * H2 \<and> 0 < self_density \<and>
     self_density \<le> density (particles (computeDensityPressure s) ! i) \<and>
     0.0001 < density (particles (computeDensityPressure s) ! i) + 0.0001 \<and>
     0.0001 < 2 * density (particles (computeDensityPressure s) ! i) + 0.0001 \<and>
     (\<exists>s'. computeForces (computeDensityPressure s) = Some s' \<and>
        density (particles s' ! i) = density (particles (computeDensityPressure s) ! i))"
proof -
  let ?s2 = "computeDensityPressure s"
  have d: "self_density \<le> density (particles ?s2 ! i)"
    by (rule density_ge_self [OF assms])
  have h2: "hash_current ?s2" by (rule computeDensityPressure_hash_current [OF assms(1)])
  have i2: "i < length (particles ?s2)"
    using assms(2) by (simp add: computeDensityPressure_length [OF assms(1)])
  obtain s' where s': "computeForces ?s2 = Some s'"
    using computeForces_after_density [OF assms(1)] by blast
  have "same_but_force (particles s' ! i) (particles ?s2 ! i)"
    by (rule computeForces_frame(2) [OF h2 s' i2])
  then have "density (particles s' ! i) = density (particles ?s2 ! i)"
    by (simp add: same_but_force_def)
  with s' d self_density_pos show ?thesis
    by (simp add: self_density_def)
qed

theorem density_bounded_away_from_zero_witness:
  "self_density = PARTICLE_MASS * POLY6_COEFF * H2 * H2 * H2 \<and> 0 < self_density \<and>
     self_density \<le> density (particles (computeDensityPressure twin) ! 0) \<and>
     0.0001 < density (particles (computeDensityPressure twin) ! 0) + 0.0001 \<and>
     0.0001 < 2 * density (particles (computeDensityPressure twin) ! 0) + 0.0001 \<and>
     (\<exists>s'. computeForces (computeDensityPressure twin) = Some s' \<and>
        density (particles s' ! 0) = density (particles (computeDensityPressure twin) ! 0))"
proof (rule density_bounded_away_from_zero [OF twin_hash_current])
  show "0 < length (particles twin)" by (simp add: twin_def)
qed

text \<open>
  C5. For two distinct particles at the same position the neighbour loop of the force pass
  leaves the accumulators as they are (the test \<open>r2 > 0.0001\<close> fails before any division by
  \<open>r\<close>), the force pass after the density pass returns finite numbers, and the density of
  each of the two holds its own contribution and that of the other, both at \<open>r2 = 0\<close>.
\<close>

theorem coincident_particles:
  assumes "hash_current s" and "i < length (particles s)" and "j < length (particles s)"
    and "i \<noteq> j"
    and "x (particles s ! j) = x (particles s ! i)" and "y (particles s ! j) = y (particles s ! i)"
  shows "force_pair (particles (computeDensityPressure s)) i j acc = Some acc \<and>
     force_pair (particles (computeDensityPressure s)) j i acc = Some acc \<and>
     (\<exists>s'. computeForces (computeDensityPressure s) = Some s') \<and>
     2 * self_density \<le> density (particles (computeDensityPressure s) ! i) \<and>
     2 * self_density \<le> density (particles (computeDensityPressure s) ! j)"
proof -
  let ?ps2 = "particles (computeDensityPressure s)"
  have pos: "x (?ps2 ! k) = x (particles s ! k)" "y (?ps2 ! k) = y (particles s ! k)"
    if "k < length (particles s)" for k
    using that by (simp_all add: computeDensityPressure_particle [OF assms(1)] with_density_frame)
  have 1: "force_pair ?ps2 i j acc = Some acc"
    by (rule force_pair_coincident) (simp_all add: assms pos)
  have 2: "force_pair ?ps2 j i acc = Some acc"
    by (rule force_pair_coincident) (use assms in \<open>simp_all add: pos\<close>)
  have 3: "2 * self_density \<le> density (?ps2 ! i)"
    by (rule density_ge_twice_self [OF assms])
  have 4: "2 * self_density \<le> density (?ps2 ! j)"
    by (rule density_ge_twice_self [OF assms(1,3,2)]) (use assms in simp_all)
  from 1 2 3 4 computeForces_after_density [OF assms(1)] show ?thesis by blast
qed

theorem coincident_particles_witness:
  "force_pair (particles (computeDensityPressure twin)) 0 1 (0, 0, 0, 0) = Some (0, 0, 0, 0) \<and>
     force_pair (particles (computeDensityPressure twin)) 1 0 (0, 0, 0, 0) = Some (0, 0, 0, 0) \<and>
     (\<exists>s'. computeForces (computeDensityPressure twin) = Some s') \<and>
     2 * self_density \<le> density (particles (computeDensityPressure twin) ! 0) \<and>
     2 * self_density \<le> density (particles (computeDensityPressure twin) ! 1)"
proof (rule coincident_particles [OF twin_hash_current])
  show "0 < length (particles twin)" "1 < length (particles twin)" "(0::nat) \<noteq> 1"
    "x (particles twin ! 1) = x (particles twin ! 0)"
    "y (particles twin ! 1) = y (particles twin ! 0)"
    by (simp_all add: twin_def createParticle_def)
qed

section \<open>Gravity and force samples\<close>

lemma computeForces_defined_iff:
  assumes "hash_current s"
  shows "(\<exists>s'. computeForces s = Some s') \<longleftrightarrow>
     (\<forall>k<length (particles s). pair_sums (spatialHash s) (particles s) k \<noteq> None)"
proof
  assume "\<exists>s'. computeForces s = Some s'"
  then obtain ps' where F: "\<And>k. k < length (particles s) \<Longrightarrow>
       force_particle (spatialHash s) (handForces s) (fst (active_gravity s))
             (snd (active_gravity s)) (particles s) k = Some (ps' ! k)"
    unfolding computeForces_iff [OF assms] by blast
  show "\<forall>k<length (particles s). pair_sums (spatialHash s) (particles s) k \<noteq> None"
  proof (intro allI impI)
    fix k assume "k < length (particles s)"
    from F [OF this] show "pair_sums (spatialHash s) (particles s) k \<noteq> None"
      by (auto simp: force_particle_eq split: option.splits)
  qed
next
  assume a: "\<forall>k<length (particles s). pair_sums (spatialHash s) (particles s) k \<noteq> None"
  let ?F = "force_particle (spatialHash s) (handForces s) (fst (active_gravity s))
             (snd (active_gravity s)) (particles s)"
  have "\<exists>p. k < length (particles s) \<longrightarrow> ?F k = Some p" for k
    using a by (auto simp: force_particle_eq split: option.splits)
  then obtain P where P: "\<And>k. k < length (particles s) \<Longrightarrow> ?F k = Some (P k)" by metis
  let ?ps' = "map P [0..<length (particles s)]"
  have "computeForces s = Some (s\<lparr>particles := ?ps'\<rparr>)"
    unfolding computeForces_iff [OF assms]
    by (rule exI [where x = ?ps']) (simp add: P)
  then show "\<exists>s'. computeForces s = Some s'" ..
qed

lemma computeForces_force:
  assumes "hash_current s" and "computeForces s = Some s'" and "k < length (particles s)"
  obtains fpx fpy fvx fvy where
    "pair_sums (spatialHash s) (particles s) k = Some (fpx, fpy, fvx, fvy)"
    "fx (particles s' ! k) = fpx + fvx + fst (active_gravity s) * density (particles s ! k)
        + fst (loop_total (handForces s) (particles s ! k))"
    "fy (particles s' ! k) = fpy + fvy + snd (active_gravity s) * density (particles s ! k)
        + snd (loop_total (handForces s) (particles s ! k))"
proof -
  from assms(2) obtain ps' where s': "s' = s\<lparr>particles := ps'\<rparr>"
    and F: "\<And>k. k < length (particles s) \<Longrightarrow>
       force_particle (spatialHash s) (handForces s) (fst (active_gravity s))
             (snd (active_gravity s)) (particles s) k = Some (ps' ! k)"
    unfolding computeForces_iff [OF assms(1)] by blast
  from F [OF assms(3)] obtain fpx fpy fvx fvy where
    ps: "pair_sums (spatialHash s) (particles s) k = Some (fpx, fpy, fvx, fvy)"
    and p: "ps' ! k = (particles s ! k)
       \<lparr>fx := fpx + fvx + fst (active_gravity s) * density (particles s ! k)
                + fst (loop_total (handForces s) (particles s ! k)),
         fy := fpy + fvy + snd (active_gravity s) * density (particles s ! k)
                + snd (loop_total (handForces s) (particles s ! k))\<rparr>"
    by (auto simp: force_particle_eq split: option.splits)
  show thesis
    by (rule that [OF ps]) (simp_all add: s' p)
qed


lemma hash_current_gravityEnabled [simp]:
  "hash_current (s\<lparr>gravityEnabled := b\<rparr>) = hash_current s"
  "hash_current (s\<lparr>gravity := g\<rparr>) = hash_current s"
  "hash_current (s\<lparr>handForces := hs\<rparr>) = hash_current s"
  by (simp_all add: hash_current_def)

lemma lonely_hash_current: "hash_current lonely"
  by (simp add: hash_current_def lonely_def)

lemma lone_fields:
  "x lone = 100" "y lone = 100" "vx lone = 0" "vy lone = 0" "density lone = 1"
  by (simp_all add: lone_def)

lemma lonely_neighbors:
  "getNeighbors H (rebuild H [lone]) 100 100 = [0]"
  by (simp add: getNeighbors_def rebuild_def insert_hash_def getKey_def cellKey_def
      bucket_def clear_def H_def Let_def lone_fields)

lemma lonely_run: "computeForces lonely = Some lonely_after"
proof -
  have ps: "pair_sums (rebuild H [lone]) [lone] 0 = Some (0, 0, 0, 0)"
    unfolding pair_sums_def
    by (simp add: lonely_neighbors lone_fields force_pair_def)
  show ?thesis
    unfolding computeForces_iff [OF lonely_hash_current] force_particle_eq
    apply (rule exI [where x = "particles lonely_after"])
    apply (simp add: lonely_after_def lonely_def ps active_gravity_def
        SPHSimulation_def loop_total_def)
    done
qed


lemma computeForces_gravity_vector:
  assumes "gravityEnabled s = False"
  shows "map_option particles (computeForces (s\<lparr>gravity := g\<rparr>)) = map_option particles (computeForces s)"
  using assms by (simp add: computeForces_def split: option.splits)

text \<open>
  C6. With gravity enabled the force pass gives every particle the force it gives with
  gravity disabled plus the gravity vector times the density of that particle; with
  gravity disabled the gravity vector has no influence on the forces.
\<close>

theorem gravity_times_own_density:
  assumes "hash_current s" and "i < length (particles s)"
    and "computeForces (s\<lparr>gravityEnabled := False\<rparr>) = Some s0"
  shows "(\<exists>s1. computeForces (s\<lparr>gravityEnabled := True\<rparr>) = Some s1 \<and>
            fx (particles s1 ! i) = fx (particles s0 ! i) + fst (gravity s) * density (particles s ! i) \<and>
            fy (particles s1 ! i) = fy (particles s0 ! i) + snd (gravity s) * density (particles s ! i)) \<and>
         (\<forall>g. \<exists>s2. computeForces (s\<lparr>gravityEnabled := False, gravity := g\<rparr>) = Some s2 \<and>
            particles s2 = particles s0)"
proof
  let ?off = "s\<lparr>gravityEnabled := False\<rparr>" and ?on = "s\<lparr>gravityEnabled := True\<rparr>"
  have h: "hash_current ?off" "hash_current ?on" using assms(1) by simp_all
  have "\<forall>k<length (particles ?off). pair_sums (spatialHash ?off) (particles ?off) k \<noteq> None"
    using computeForces_defined_iff [OF h(1)] assms(3) by blast
  then have "\<forall>k<length (particles ?on). pair_sums (spatialHash ?on) (particles ?on) k \<noteq> None"
    by simp
  then obtain s1 where s1: "computeForces ?on = Some s1"
    using computeForces_defined_iff [OF h(2)] by blast
  have i: "i < length (particles ?off)" "i < length (particles ?on)" using assms(2) by simp_all
  from computeForces_force [OF h(1) assms(3) i(1)] obtain a b c d where
    off: "pair_sums (spatialHash ?off) (particles ?off) i = Some (a, b, c, d)"
      "fx (particles s0 ! i) = a + c + fst (active_gravity ?off) * density (particles ?off ! i)
          + fst (loop_total (handForces ?off) (particles ?off ! i))"
      "fy (particles s0 ! i) = b + d + snd (active_gravity ?off) * density (particles ?off ! i)
          + snd (loop_total (handForces ?off) (particles ?off ! i))"
    by blast
  from computeForces_force [OF h(2) s1 i(2)] obtain a' b' c' d' where
    on: "pair_sums (spatialHash ?on) (particles ?on) i = Some (a', b', c', d')"
      "fx (particles s1 ! i) = a' + c' + fst (active_gravity ?on) * density (particles ?on ! i)
          + fst (loop_total (handForces ?on) (particles ?on ! i))"
      "fy (particles s1 ! i) = b' + d' + snd (active_gravity ?on) * density (particles ?on ! i)
          + snd (loop_total (handForces ?on) (particles ?on ! i))"
    by blast
  from off(1) on(1) have eq: "a' = a" "b' = b" "c' = c" "d' = d" by simp_all
  have "fx (particles s1 ! i) = fx (particles s0 ! i) + fst (gravity s) * density (particles s ! i)"
    "fy (particles s1 ! i) = fy (particles s0 ! i) + snd (gravity s) * density (particles s ! i)"
    unfolding on(2,3) off(2,3) eq by (simp_all add: active_gravity_def)
  with s1 show "\<exists>s1. computeForces ?on = Some s1 \<and>
            fx (particles s1 ! i) = fx (particles s0 ! i) + fst (gravity s) * density (particles s ! i) \<and>
            fy (particles s1 ! i) = fy (particles s0 ! i) + snd (gravity s) * density (particles s ! i)"
    by blast
next
  show "\<forall>g. \<exists>s2. computeForces (s\<lparr>gravityEnabled := False, gravity := g\<rparr>) = Some s2 \<and>
            particles s2 = particles s0"
  proof
    fix g
    have "map_option particles (computeForces (s\<lparr>gravityEnabled := False, gravity := g\<rparr>))
        = map_option particles (computeForces (s\<lparr>gravityEnabled := False\<rparr>))"
      by (rule computeForces_gravity_vector) simp
    with assms(3) show "\<exists>s2. computeForces (s\<lparr>gravityEnabled := False, gravity := g\<rparr>) = Some s2 \<and>
            particles s2 = particles s0"
      by auto
  qed
qed

theorem gravity_times_own_density_witness:
  "(\<exists>s1. computeForces (lonely\<lparr>gravityEnabled := True\<rparr>) = Some s1 \<and>
            fx (particles s1 ! 0) = fx (particles lonely_after ! 0)
               + fst (gravity lonely) * density (particles lonely ! 0) \<and>
            fy (particles s1 ! 0) = fy (particles lonely_after ! 0)
               + snd (gravity lonely) * density (particles lonely ! 0)) \<and>
         (\<forall>g. \<exists>s2. computeForces (lonely\<lparr>gravityEnabled := False, gravity := g\<rparr>) = Some s2 \<and>
            particles s2 = particles lonely_after)"
proof (rule gravity_times_own_density [OF lonely_hash_current])
  show "0 < length (particles lonely)" by (simp add: lonely_def)
  have "lonely\<lparr>gravityEnabled := False\<rparr> = lonely" by (simp add: lonely_def)
  then show "computeForces (lonely\<lparr>gravityEnabled := False\<rparr>) = Some lonely_after"
    by (simp add: lonely_run)
qed


subsection \<open>Force samples\<close>

text \<open>
  For a sample of positive radius the radius the loop uses (\<open>hand.radius || 80\<close>) is the
  radius of the sample, the test \<open>hDist2 < hRadius2 && hDist2 > 1\<close> on the squares is the
  test \<open>1 < d < radius\<close> on the distance, and what the loop adds is the push and the drag of
  the specification.
\<close>

lemma hRadius_of_hand_radius: "0 < hand_radius hnd \<Longrightarrow> hRadius_of hnd = hand_radius hnd"
  by (simp add: hRadius_of_def hand_radius_def split: option.splits)

text \<open>A sample of radius zero is given the radius 80 by \<open>hand.radius || 80\<close>.\<close>

lemma hRadius_of_zero: "radius hnd = Some 0 \<Longrightarrow> hRadius_of hnd = 80"
  by (simp add: hRadius_of_def)

lemma loop_in_range_eq:
  assumes "0 < hand_radius hnd"
  shows "loop_in_range hnd p \<longleftrightarrow> hand_in_range hnd p"
proof -
  let ?d2 = "(x p - hx hnd) * (x p - hx hnd) + (y p - hy hnd) * (y p - hy hnd)"
  have r: "sqrt (hand_radius hnd * hand_radius hnd) = hand_radius hnd"
    using assms by simp
  have "sqrt ?d2 < sqrt (hand_radius hnd * hand_radius hnd) \<longleftrightarrow>
        ?d2 < hand_radius hnd * hand_radius hnd"
    by (rule real_sqrt_less_iff)
  then have a: "sqrt ?d2 < hand_radius hnd \<longleftrightarrow> ?d2 < hand_radius hnd * hand_radius hnd"
    unfolding r .
  have b: "1 < sqrt ?d2 \<longleftrightarrow> 1 < ?d2"
    by (rule real_sqrt_gt_1_iff)
  show ?thesis
    unfolding loop_in_range_def hand_in_range_def hand_dist_def Let_def
      hRadius_of_hand_radius [OF assms] a b
    by blast
qed

lemma loop_terms_eq:
  assumes "0 < hand_radius hnd"
  shows "loop_influence hnd p = hand_influence hnd p"
    and "loop_push hnd p = hand_push hnd p"
    and "loop_drag hnd p = hand_drag hnd p"
  by (simp_all add: loop_influence_def hand_influence_def loop_push_def hand_push_def
      loop_drag_def hand_drag_def hRadius_of_hand_radius [OF assms])

lemma loop_total_eq:
  "\<forall>hnd\<in>set hands. 0 < hand_radius hnd \<Longrightarrow> loop_total hands p = hand_total hands p"
  by (induction hands)
     (simp_all add: loop_total_def hand_total_def loop_in_range_eq loop_terms_eq)

lemma hand_direction_unit:
  assumes "hand_in_range hnd p"
  shows "((x p - hx hnd) / hand_dist hnd p)\<^sup>2 + ((y p - hy hnd) / hand_dist hnd p)\<^sup>2 = 1"
proof -
  let ?a = "x p - hx hnd" and ?b = "y p - hy hnd"
  have d: "0 < hand_dist hnd p"
    using assms by (simp add: hand_in_range_def)
  then have pos: "0 < (hand_dist hnd p)\<^sup>2" by simp
  have "0 \<le> ?a * ?a + ?b * ?b" by simp
  then have d2: "?a * ?a + ?b * ?b = (hand_dist hnd p)\<^sup>2"
    unfolding hand_dist_def by simp
  have "(?a / hand_dist hnd p)\<^sup>2 + (?b / hand_dist hnd p)\<^sup>2
      = (?a * ?a + ?b * ?b) / (hand_dist hnd p)\<^sup>2"
    by (simp add: power_divide power2_eq_square add_divide_distrib)
  also have "\<dots> = 1"
  proof -
    have "c / c = 1" if "0 < c" for c :: real using that by simp
    from this [OF pos] show ?thesis unfolding d2 .
  qed
  finally show ?thesis .
qed

text \<open>
  C7. When every force sample has a positive radius, the force pass gives every particle
  the force it gives without force samples plus, for each sample from whose centre the
  particle has a distance \<open>d\<close> with \<open>1 < d < radius\<close>, a push of magnitude
  \<open>8000 * influence\<^sup>2 * density\<close> along the unit vector from the sample centre to the
  particle and the drag \<open>3000 * influence * (sample velocity - particle velocity)\<close>, with
  \<open>influence = 1 - d / radius\<close>; the radius is the one the sample carries, and 80 for a
  sample that carries none; the contributions of the samples add up.
\<close>

theorem hand_samples_push_and_drag:
  assumes "hash_current s" and "i < length (particles s)"
    and "computeForces (s\<lparr>handForces := []\<rparr>) = Some s0"
    and "\<forall>hnd\<in>set (handForces s). 0 < hand_radius hnd"
  shows "(\<exists>s1. computeForces s = Some s1 \<and>
            fx (particles s1 ! i) = fx (particles s0 ! i)
               + fst (hand_total (handForces s) (particles s ! i)) \<and>
            fy (particles s1 ! i) = fy (particles s0 ! i)
               + snd (hand_total (handForces s) (particles s ! i))) \<and>
         (\<forall>hnd\<in>set (handForces s).
            hand_in_range hnd (particles s ! i) \<longrightarrow>
               ((x (particles s ! i) - hx hnd) / hand_dist hnd (particles s ! i))\<^sup>2 +
               ((y (particles s ! i) - hy hnd) / hand_dist hnd (particles s ! i))\<^sup>2 = 1)"
proof
  let ?off = "s\<lparr>handForces := []\<rparr>"
  have h: "hash_current ?off" using assms(1) by simp
  have "\<forall>k<length (particles ?off). pair_sums (spatialHash ?off) (particles ?off) k \<noteq> None"
    using computeForces_defined_iff [OF h] assms(3) by blast
  then have "\<forall>k<length (particles s). pair_sums (spatialHash s) (particles s) k \<noteq> None"
    by simp
  then obtain s1 where s1: "computeForces s = Some s1"
    using computeForces_defined_iff [OF assms(1)] by blast
  have i: "i < length (particles ?off)" using assms(2) by simp
  from computeForces_force [OF h assms(3) i] obtain a b c d where
    off: "pair_sums (spatialHash ?off) (particles ?off) i = Some (a, b, c, d)"
      "fx (particles s0 ! i) = a + c + fst (active_gravity ?off) * density (particles ?off ! i)
          + fst (loop_total (handForces ?off) (particles ?off ! i))"
      "fy (particles s0 ! i) = b + d + snd (active_gravity ?off) * density (particles ?off ! i)
          + snd (loop_total (handForces ?off) (particles ?off ! i))"
    by blast
  from computeForces_force [OF assms(1) s1 assms(2)] obtain a' b' c' d' where
    on: "pair_sums (spatialHash s) (particles s) i = Some (a', b', c', d')"
      "fx (particles s1 ! i) = a' + c' + fst (active_gravity s) * density (particles s ! i)
          + fst (loop_total (handForces s) (particles s ! i))"
      "fy (particles s1 ! i) = b' + d' + snd (active_gravity s) * density (particles s ! i)
          + snd (loop_total (handForces s) (particles s ! i))"
    by blast
  from off(1) on(1) have eq: "a' = a" "b' = b" "c' = c" "d' = d" by simp_all
  have "fx (particles s1 ! i) = fx (particles s0 ! i)
               + fst (loop_total (handForces s) (particles s ! i))"
    "fy (particles s1 ! i) = fy (particles s0 ! i)
               + snd (loop_total (handForces s) (particles s ! i))"
    unfolding on(2,3) off(2,3) eq by (simp_all add: active_gravity_def loop_total_def)
  with s1 show "\<exists>s1. computeForces s = Some s1 \<and>
            fx (particles s1 ! i) = fx (particles s0 ! i)
               + fst (hand_total (handForces s) (particles s ! i)) \<and>
            fy (particles s1 ! i) = fy (particles s0 ! i)
               + snd (hand_total (handForces s) (particles s ! i))"
    unfolding loop_total_eq [OF assms(4)] by blast
next
  show "\<forall>hnd\<in>set (handForces s).
            hand_in_range hnd (particles s ! i) \<longrightarrow>
               ((x (particles s ! i) - hx hnd) / hand_dist hnd (particles s ! i))\<^sup>2 +
               ((y (particles s ! i) - hy hnd) / hand_dist hnd (particles s ! i))\<^sup>2 = 1"
    by (simp add: hand_direction_unit)
qed

text \<open>
  The three example samples at the particle \<open>(100, 100)\<close> of density 1, at rest: the sample
  without a radius, at distance 5, has influence \<open>1 - 5 / 80\<close>; the near sample of radius 50,
  at distance 30, has influence \<open>1 - 30 / 50\<close>; the far sample of radius 50, at distance 70,
  does not act.
\<close>

lemma sample_terms:
  "hand_dist sample lone = 5" "hand_in_range sample lone"
  "hand_influence sample lone = 15 / 16"
  "hand_push sample lone = (- 3 / 5 * (8000 * (15 / 16)\<^sup>2), - 4 / 5 * (8000 * (15 / 16)\<^sup>2))"
  "hand_drag sample lone = (28125, 0)"
proof -
  show d: "hand_dist sample lone = 5"
    by (simp add: hand_dist_def sample_def lone_fields real_sqrt_unique)
  show "hand_in_range sample lone"
    by (simp add: hand_in_range_def d) (simp add: hand_radius_def sample_def)
  show i: "hand_influence sample lone = 15 / 16"
    by (simp add: hand_influence_def d) (simp add: hand_radius_def sample_def)
  show "hand_push sample lone = (- 3 / 5 * (8000 * (15 / 16)\<^sup>2), - 4 / 5 * (8000 * (15 / 16)\<^sup>2))"
    by (simp add: hand_push_def i d lone_fields) (simp add: sample_def)
  show "hand_drag sample lone = (28125, 0)"
    by (simp add: hand_drag_def i lone_fields) (simp add: sample_def)
qed

lemma sample_near_terms:
  "hand_dist sample_near lone = 30" "hand_in_range sample_near lone"
  "hand_influence sample_near lone = 2 / 5"
  "hand_push sample_near lone = (0, - 1280)"
  "hand_drag sample_near lone = (0, 6000)"
proof -
  show d: "hand_dist sample_near lone = 30"
    by (simp add: hand_dist_def sample_near_def lone_fields real_sqrt_unique)
  show "hand_in_range sample_near lone"
    by (simp add: hand_in_range_def d) (simp add: hand_radius_def sample_near_def)
  show i: "hand_influence sample_near lone = 2 / 5"
    by (simp add: hand_influence_def d) (simp add: hand_radius_def sample_near_def)
  show "hand_push sample_near lone = (0, - 1280)"
    by (simp add: hand_push_def i d lone_fields) (simp add: sample_near_def power2_eq_square)
  show "hand_drag sample_near lone = (0, 6000)"
    by (simp add: hand_drag_def i lone_fields) (simp add: sample_near_def)
qed

lemma sample_far_terms:
  "hand_dist sample_far lone = 70" "\<not> hand_in_range sample_far lone"
proof -
  show d: "hand_dist sample_far lone = 70"
    by (simp add: hand_dist_def sample_far_def lone_fields real_sqrt_unique)
  show "\<not> hand_in_range sample_far lone"
    by (simp add: hand_in_range_def d) (simp add: hand_radius_def sample_far_def)
qed

lemma samples_contribution:
  "hand_total [sample, sample_near, sample_far] lone = (95625 / 4, - 905)"
  by (simp add: hand_total_def sample_terms sample_near_terms sample_far_terms
      power2_eq_square)

theorem hand_samples_push_and_drag_witness:
  "\<exists>s1. computeForces (lonely\<lparr>handForces := [sample, sample_near, sample_far]\<rparr>) = Some s1 \<and>
      fx (particles s1 ! 0) = 95625 / 4 \<and> fy (particles s1 ! 0) = - 905"
proof -
  let ?s = "lonely\<lparr>handForces := [sample, sample_near, sample_far]\<rparr>"
  have 1: "hash_current ?s"
    by (simp add: lonely_hash_current)
  have 2: "0 < length (particles ?s)"
    by (simp add: lonely_def)
  have "?s\<lparr>handForces := []\<rparr> = lonely"
    by (simp add: lonely_def SPHSimulation_def)
  then have 3: "computeForces (?s\<lparr>handForces := []\<rparr>) = Some lonely_after"
    by (simp add: lonely_run)
  have 4: "\<forall>hnd\<in>set (handForces ?s). 0 < hand_radius hnd"
    by (simp add: hand_radius_def sample_def sample_near_def sample_far_def)
  have p: "particles ?s ! 0 = lone"
    "handForces ?s = [sample, sample_near, sample_far]"
    "fx (particles lonely_after ! 0) = 0" "fy (particles lonely_after ! 0) = 0"
    by (simp_all add: lonely_def lonely_after_def)
  from hand_samples_push_and_drag [OF 1 2 3 4] show ?thesis
    unfolding p samples_contribution by simp
qed

section \<open>The step\<close>

lemma integrate_total:
  assumes "\<And>k. k < length (particles s) \<Longrightarrow> density (particles s ! k) + 0.0001 \<noteq> 0"
  shows "\<exists>s'. integrate dt s = Some s'"
proof -
  have "\<exists>p. k < length (particles s) \<longrightarrow>
      integrate_particle dt (width s) (height s) (particles s ! k) = Some p" for k
  proof (cases "k < length (particles s)")
    case True
    from assms [OF True] have "\<exists>p4. euler dt (particles s ! k) = Some p4"
      by (simp add: euler_Some_iff)
    then show ?thesis by (auto simp: integrate_particle_def)
  qed simp
  then obtain P where P: "\<And>k. k < length (particles s) \<Longrightarrow>
      integrate_particle dt (width s) (height s) (particles s ! k) = Some (P k)" by metis
  have "integrate dt s = Some (s\<lparr>particles := map P [0..<length (particles s)]\<rparr>)"
    unfolding integrate_iff
    by (rule exI [where x = "map P [0..<length (particles s)]"]) (simp add: P)
  then show ?thesis ..
qed

lemma substep_total: "\<exists>s'. substep s = Some s'"
proof -
  let ?s1 = "s\<lparr>spatialHash := rebuild H (particles s)\<rparr>"
  let ?s2 = "computeDensityPressure ?s1"
  have h1: "hash_current ?s1" by (rule hash_current_rebuild)
  have h2: "hash_current ?s2" by (rule computeDensityPressure_hash_current [OF h1])
  obtain s3 where s3: "computeForces ?s2 = Some s3"
    using computeForces_after_density [OF h1] by blast
  have "density (particles s3 ! k) + 0.0001 \<noteq> 0" if "k < length (particles s3)" for k
  proof -
    have k2: "k < length (particles ?s2)"
      using that computeForces_frame(1) [OF h2 s3] by simp
    then have k1: "k < length (particles ?s1)"
      by (simp add: computeDensityPressure_length [OF h1])
    have "same_but_force (particles s3 ! k) (particles ?s2 ! k)"
      by (rule computeForces_frame(2) [OF h2 s3 k2])
    then have "density (particles s3 ! k) = density (particles ?s2 ! k)"
      by (simp add: same_but_force_def)
    with density_ge_self [OF h1 k1] self_density_pos have "0 < density (particles s3 ! k)"
      by linarith
    then show ?thesis by simp
  qed
  then obtain s' where "integrate DT s3 = Some s'"
    using integrate_total by blast
  with s3 show ?thesis by (simp add: substep_def Let_def)
qed

lemma substeps_total: "\<exists>s'. substeps n s = Some s'"
proof (induction n arbitrary: s)
  case 0
  show ?case by simp
next
  case (Suc n)
  obtain s1 where "substep s = Some s1" using substep_total by blast
  with Suc [of s1] show ?case by simp
qed

lemma substep_ignores_hash: "substep (s\<lparr>spatialHash := g\<rparr>) = substep s"
  by (simp add: substep_def)

lemma step_ignores_hash: "step (s\<lparr>spatialHash := g\<rparr>) = step s"
  by (simp add: step_def SUBSTEPS_def eval_nat_numeral substep_ignores_hash)

text \<open>
  C9. \<open>step\<close> is a function of the particle collection, the force samples and the
  configuration (domain size, gravity vector, gravity switch): two engine states that agree
  on these, whatever their hashes hold, are taken by \<open>step\<close> to one and the same state, and
  \<open>step\<close> always returns one.
\<close>

theorem step_deterministic:
  assumes "particles s = particles t" and "handForces s = handForces t"
    and "width s = width t" and "height s = height t"
    and "gravity s = gravity t" and "gravityEnabled s = gravityEnabled t"
  shows "\<exists>s'. step s = Some s' \<and> step t = Some s'"
proof -
  have "t = s\<lparr>spatialHash := spatialHash t\<rparr>"
    using assms by (intro sim.equality) simp_all
  then have "step t = step s" using step_ignores_hash by metis
  moreover obtain s' where "step s = Some s'"
    unfolding step_def using substeps_total by blast
  ultimately show ?thesis by simp
qed

theorem step_deterministic_witness:
  "\<exists>s'. step twin = Some s' \<and> step (twin\<lparr>spatialHash := clear\<rparr>) = Some s'"
  by (rule step_deterministic) simp_all

section \<open>Two particles five units apart\<close>

lemma pair_fields:
  "x left_particle = 100" "y left_particle = 100" "x right_particle = 105" "y right_particle = 100"
  "vx left_particle = 0" "vy left_particle = 0" "vx right_particle = 0" "vy right_particle = 0"
  by (simp_all add: left_particle_def right_particle_def createParticle_def)

lemma pair_neighbors:
  "getNeighbors H (rebuild H [left_particle, right_particle]) 100 100 = [0, 1]"
  "getNeighbors H (rebuild H [left_particle, right_particle]) 105 100 = [0, 1]"
  by (simp_all add: getNeighbors_def rebuild_def insert_hash_def getKey_def cellKey_def
      bucket_def clear_def H_def Let_def pair_fields)


lemma dist2_pair:
  "dist2 left_particle left_particle = 0" "dist2 left_particle right_particle = 25"
  "dist2 right_particle left_particle = 25" "dist2 right_particle right_particle = 0"
  by (simp_all add: dist2_def pair_fields)

lemma less_two_cases: "k < 2 \<longleftrightarrow> k = 0 \<or> k = Suc 0"
  by auto

lemma pair_hashed_current:
  "hash_current (pair_state\<lparr>spatialHash := rebuild H (particles pair_state)\<rparr>)"
  by (rule hash_current_rebuild)

lemma pair_with_density:
  "with_density (rebuild H [left_particle, right_particle]) [left_particle, right_particle] 0
      = left_particle\<lparr>density := pair_density, pressure := pair_pressure\<rparr>"
  "with_density (rebuild H [left_particle, right_particle]) [left_particle, right_particle] (Suc 0)
      = right_particle\<lparr>density := pair_density, pressure := pair_pressure\<rparr>"
  by (simp_all add: with_density_def pair_fields pair_neighbors density_sum_def dist2_pair
        pair_density_def pair_pressure_def Let_def)

lemma pair_density_pass:
  "particles (computeDensityPressure (pair_state\<lparr>spatialHash := rebuild H (particles pair_state)\<rparr>))
     = [left_particle\<lparr>density := pair_density, pressure := pair_pressure\<rparr>,
        right_particle\<lparr>density := pair_density, pressure := pair_pressure\<rparr>]"
proof -
  let ?s1 = "pair_state\<lparr>spatialHash := rebuild H (particles pair_state)\<rparr>"
  have ps: "particles pair_state = [left_particle, right_particle]"
    by (simp add: pair_state_def)
  have len: "length (particles (computeDensityPressure ?s1)) = 2"
    unfolding computeDensityPressure_length [OF pair_hashed_current] by (simp add: ps)
  have nth: "particles (computeDensityPressure ?s1) ! k
      = with_density (rebuild H [left_particle, right_particle]) [left_particle, right_particle] k"
    if "k < 2" for k
    using computeDensityPressure_particle [OF pair_hashed_current, of k] that by (simp add: ps)
  show ?thesis
    by (rule nth_equalityI) (auto simp: len less_two_cases nth pair_with_density)
qed


lemma pair_density_eq: "pair_density = (260 * (1225 ^ 3 + 1200 ^ 3) / 35 ^ 8) / pi"
  by (simp add: pair_density_def poly6_def H2_def H_def PARTICLE_MASS_def POLY6_COEFF_def
      field_simps)

lemma pair_density_bounds: "1 / 10 < pair_density" "pair_density < 1 / 4"
proof -
  have "pi < 4" "2 \<le> pi" using pi_less_4 pi_ge_two by simp_all
  then show "1 / 10 < pair_density" "pair_density < 1 / 4"
    unfolding pair_density_eq by (simp_all add: field_simps)
qed

lemma pair_pressure_bounds: "- 2000000 < pair_pressure" "pair_pressure < - 1999000"
  using pair_density_bounds
  by (simp_all add: pair_pressure_def GAS_CONSTANT_def REST_DENSITY_def)


lemma pair_force_eq:
  "pair_force = (585000 / 35 ^ 5) * (- (pair_pressure + pair_pressure))
                  / (pi * (2 * pair_density + 0.0001))"
  by (simp add: pair_force_def SPIKY_GRAD_COEFF_def H_def PARTICLE_MASS_def)

lemma pair_force_bounds: "0 < pair_force" "pair_force < 120000"
proof -
  let ?G = "- (pair_pressure + pair_pressure)" and ?W = "2 * pair_density + 0.0001"
  have G: "0 < ?G" "?G < 4000000" using pair_pressure_bounds by simp_all
  have W: "2 / 10 \<le> ?W" using pair_density_bounds by simp
  have "2 * (2 / 10) \<le> pi * ?W"
    by (rule mult_mono) (use pi_ge_two W in simp_all)
  then have Z: "4 / 10 \<le> pi * ?W" by simp
  then have Zpos: "0 < pi * ?W" by linarith
  show "0 < pair_force"
  proof -
    have "0 < (585000 / 35 ^ 5) * ?G" using G(1) by simp
    from divide_pos_pos [OF this Zpos] show ?thesis unfolding pair_force_eq .
  qed
  have "(585000 / 35 ^ 5) * ?G / (pi * ?W) < (585000 / 35 ^ 5) * 4000000 / (4 / 10)"
    by (rule frac_less) (use G Z in simp_all)
  also have "\<dots> < 120000" by simp
  finally show "pair_force < 120000" unfolding pair_force_eq .
qed

lemma pair_velocity_bounds: "0 < pair_velocity" "DT * pair_velocity < 1"
proof -
  let ?W = "pair_density + 0.0001"
  have W: "1 / 10 \<le> ?W" using pair_density_bounds by simp
  then have Wpos: "0 < ?W" by linarith
  show "0 < pair_velocity"
  proof -
    have "0 < DT * pair_force" using pair_force_bounds(1) by (simp add: DT_def)
    from divide_pos_pos [OF this Wpos] show ?thesis unfolding pair_velocity_def .
  qed
  have "DT * pair_force / ?W < DT * 120000 / (1 / 10)"
    by (rule frac_less) (use pair_force_bounds W in \<open>simp_all add: DT_def\<close>)
  then have "pair_velocity < 960" by (simp add: pair_velocity_def DT_def)
  then show "DT * pair_velocity < 1" by (simp add: DT_def)
qed


lemma sqrt_25: "sqrt 25 = 5"
  by (simp add: real_sqrt_unique)

lemma pair_denominators:
  "2 * pair_density + 0.0001 \<noteq> 0" "pair_density + 0.0001 \<noteq> 0"
  using pair_density_bounds by simp_all

lemma pair_force_pair:
  "force_pair [left_particle\<lparr>density := pair_density, pressure := pair_pressure\<rparr>,
               right_particle\<lparr>density := pair_density, pressure := pair_pressure\<rparr>]
     0 (Suc 0) (0, 0, 0, 0) = Some (pair_force, 0, 0, 0)"
  "force_pair [left_particle\<lparr>density := pair_density, pressure := pair_pressure\<rparr>,
               right_particle\<lparr>density := pair_density, pressure := pair_pressure\<rparr>]
     (Suc 0) 0 (0, 0, 0, 0) = Some (- pair_force, 0, 0, 0)"
  using pair_denominators
  by (simp_all add: force_pair_def pair_fields fdiv_def H2_def H_def sqrt_25 pair_force_def)


lemma force_pair_self: "force_pair ps i i acc = Some acc"
  by (cases acc) (simp add: force_pair_def)

lemma pair_dense_eq:
  "computeDensityPressure (pair_state\<lparr>spatialHash := rebuild H (particles pair_state)\<rparr>) = pair_dense"
proof -
  let ?s1 = "pair_state\<lparr>spatialHash := rebuild H (particles pair_state)\<rparr>"
  have "computeDensityPressure ?s1 = ?s1\<lparr>particles := particles (computeDensityPressure ?s1)\<rparr>"
    by (simp add: computeDensityPressure_def)
  then show ?thesis
    unfolding pair_density_pass by (simp add: pair_dense_def pair_state_def)
qed

lemma pair_dense_hash_current: "hash_current pair_dense"
  using computeDensityPressure_hash_current [OF pair_hashed_current]
  by (simp only: pair_dense_eq)

lemma pair_pair_sums:
  "pair_sums (spatialHash pair_dense) (particles pair_dense) 0 = Some (pair_force, 0, 0, 0)"
  "pair_sums (spatialHash pair_dense) (particles pair_dense) (Suc 0) = Some (- pair_force, 0, 0, 0)"
  by (simp_all add: pair_sums_def pair_dense_def pair_fields pair_neighbors force_pair_self
      pair_force_pair)

lemma pair_forced_eq: "computeForces pair_dense = Some pair_forced"
proof -
  let ?F = "force_particle (spatialHash pair_dense) (handForces pair_dense)
      (fst (active_gravity pair_dense)) (snd (active_gravity pair_dense)) (particles pair_dense)"
  have c: "active_gravity pair_dense = (0, 0)" "handForces pair_dense = []"
    by (simp_all add: active_gravity_def pair_dense_def pair_state_def SPHSimulation_def)
  have 0: "?F 0 = Some (particles pair_forced ! 0)"
    unfolding force_particle_eq pair_pair_sums c
    by (simp add: loop_total_def pair_forced_def pair_dense_def)
  have 1: "?F (Suc 0) = Some (particles pair_forced ! Suc 0)"
    unfolding force_particle_eq pair_pair_sums c
    by (simp add: loop_total_def pair_forced_def pair_dense_def)
  have len: "length (particles pair_dense) = 2" "length (particles pair_forced) = 2"
    by (simp_all add: pair_dense_def pair_forced_def)
  have s: "pair_forced = pair_dense\<lparr>particles := particles pair_forced\<rparr>"
    by (simp add: pair_forced_def)
  show ?thesis
    unfolding computeForces_iff [OF pair_dense_hash_current]
    by (rule exI [where x = "particles pair_forced"])
       (use s in \<open>simp add: len less_two_cases 0 1\<close>)
qed


lemma euler_eq:
  assumes "density p + 0.0001 \<noteq> 0"
  shows "euler dt p = Some (p\<lparr>vx := vx p + dt * fx p / (density p + 0.0001),
             vy := vy p + dt * fy p / (density p + 0.0001),
             x := x p + dt * (vx p + dt * fx p / (density p + 0.0001)),
             y := y p + dt * (vy p + dt * fy p / (density p + 0.0001))\<rparr>)"
  using assms by (simp add: euler_Some_iff)

lemma collide_inside:
  assumes "\<not> x p < PARTICLE_RADIUS" and "\<not> x p > w - PARTICLE_RADIUS"
    and "\<not> y p < PARTICLE_RADIUS" and "\<not> y p > h - PARTICLE_RADIUS"
  shows "collide w h p = p"
  using assms by (simp add: collide_def)

lemma pair_after_eq: "integrate DT pair_forced = Some pair_after"
proof -
  let ?I = "\<lambda>k. integrate_particle DT (width pair_forced) (height pair_forced)
      (particles pair_forced ! k)"
  have wh: "width pair_forced = 800" "height pair_forced = 600"
    by (simp_all add: pair_forced_def pair_dense_def pair_state_def SPHSimulation_def)
  have d: "density (particles pair_forced ! 0) + 0.0001 \<noteq> 0"
    "density (particles pair_forced ! Suc 0) + 0.0001 \<noteq> 0"
    using pair_denominators by (simp_all add: pair_forced_def)
  have e0: "euler DT (particles pair_forced ! 0) = Some (particles pair_after ! 0)"
    unfolding euler_eq [OF d(1)]
    by (simp add: pair_forced_def pair_after_def left_particle_def createParticle_def)
       (simp add: pair_velocity_def)
  have e1: "euler DT (particles pair_forced ! Suc 0) = Some (particles pair_after ! Suc 0)"
    unfolding euler_eq [OF d(2)]
    by (simp add: pair_forced_def pair_after_def right_particle_def createParticle_def)
       (simp add: pair_velocity_def)
  have c0: "collide 800 600 (particles pair_after ! 0) = particles pair_after ! 0"
    by (rule collide_inside)
       (use pair_velocity_bounds in \<open>simp_all add: pair_after_def PARTICLE_RADIUS_def DT_def\<close>)
  have c1: "collide 800 600 (particles pair_after ! Suc 0) = particles pair_after ! Suc 0"
    by (rule collide_inside)
       (use pair_velocity_bounds in \<open>simp_all add: pair_after_def PARTICLE_RADIUS_def DT_def\<close>)
  have 0: "?I 0 = Some (particles pair_after ! 0)"
    unfolding integrate_particle_def wh e0 by (simp add: c0)
  have 1: "?I (Suc 0) = Some (particles pair_after ! Suc 0)"
    unfolding integrate_particle_def wh e1 by (simp add: c1)
  have len: "length (particles pair_forced) = 2" "length (particles pair_after) = 2"
    by (simp_all add: pair_after_def pair_forced_def)
  have s: "pair_after = pair_forced\<lparr>particles := particles pair_after\<rparr>"
    by (simp add: pair_after_def pair_forced_def pair_dense_def)
  show ?thesis
    unfolding integrate_iff
    by (rule exI [where x = "particles pair_after"])
       (use s in \<open>simp add: len less_two_cases 0 1\<close>)
qed

lemma pair_substep: "substep pair_state = Some pair_after"
  by (simp add: substep_def pair_dense_eq pair_forced_eq pair_after_eq)


text \<open>
  C8, amended. From two particles at \<open>(100, 100)\<close> and \<open>(105, 100)\<close>, at rest, with gravity
  disabled and no force sample, one substep moves both particles towards each other along
  the x-axis, by less than one unit each, and leaves both at \<open>y = 100\<close>: their density is below
  the rest density, so the pressure is negative and the pressure force attracts.
\<close>

theorem two_particles_attract:
  "substep pair_state = Some pair_after \<and> pair_density < REST_DENSITY \<and> pair_pressure < 0 \<and>
   x (particles pair_state ! 0) = 100 \<and> x (particles pair_state ! 1) = 105 \<and>
   100 < x (particles pair_after ! 0) \<and> x (particles pair_after ! 1) < 105 \<and>
   x (particles pair_after ! 0) < 101 \<and> 104 < x (particles pair_after ! 1) \<and>
   x (particles pair_after ! 0) < x (particles pair_after ! 1) \<and>
   y (particles pair_after ! 0) = 100 \<and> y (particles pair_after ! 1) = 100"
proof -
  have "pair_density < REST_DENSITY" "pair_pressure < 0"
    using pair_density_bounds pair_pressure_bounds by (simp_all add: REST_DENSITY_def)
  moreover have "x (particles pair_state ! 0) = 100" "x (particles pair_state ! 1) = 105"
    by (simp_all add: pair_state_def pair_fields)
  moreover have "100 < x (particles pair_after ! 0)" "x (particles pair_after ! 1) < 105"
    "x (particles pair_after ! 0) < 101" "104 < x (particles pair_after ! 1)"
    "x (particles pair_after ! 0) < x (particles pair_after ! 1)"
    "y (particles pair_after ! 0) = 100" "y (particles pair_after ! 1) = 100"
    using pair_velocity_bounds by (simp_all add: pair_after_def DT_def)
  ultimately show ?thesis by (simp only: pair_substep simp_thms)
qed

text \<open>
  C8 as stated fails: after the substep the left particle is to the right of 100 and the
  right particle to the left of 105, so they have not moved apart.
\<close>

theorem two_particles_apart_counterexample:
  "substep pair_state = Some pair_after \<and>
   \<not> (x (particles pair_after ! 0) < x (particles pair_state ! 0) \<and>
      x (particles pair_state ! 1) < x (particles pair_after ! 1))"
proof -
  have "\<not> x (particles pair_after ! 0) < x (particles pair_state ! 0)"
    using pair_velocity_bounds by (simp add: pair_after_def pair_state_def pair_fields DT_def)
  then show ?thesis by (simp only: pair_substep simp_thms)
qed

section \<open>An isolated particle\<close>

text \<open>
  \<open>getNeighbors\<close> at a particle returns it as often as the key of its cell occurs among the
  nine keys read; with no other particle within the kernel radius its density is that
  number times the self-contribution, so the self-contribution where the key occurs once.
\<close>

lemma getNeighbors_block_keys:
  "getNeighbors cs g px py = concat (map (bucket g) (block_keys \<lfloor>px / cs\<rfloor> \<lfloor>py / cs\<rfloor>))"
  by (simp add: getNeighbors_def block_keys_def Let_def)

lemma count_bucket_fold_insert:
  "count_list (bucket (fold (insert_hash cs ps) is g) k) i =
     count_list (bucket g k) i +
     (if getKey cs (x (ps ! i)) (y (ps ! i)) = k then count_list is i else 0)"
  by (induction "is" arbitrary: g) (auto simp: bucket_insert_hash)

lemma count_upt: "count_list [0..<n] i = (if i < n then 1 else 0)"
  by (induction n) auto

lemma count_bucket_rebuild:
  "count_list (bucket (rebuild cs ps) k) i =
     (if i < length ps \<and> getKey cs (x (ps ! i)) (y (ps ! i)) = k then 1 else 0)"
  by (simp add: rebuild_def count_bucket_fold_insert bucket_clear count_upt)

lemma count_concat:
  "count_list (concat xss) i = sum_list (map (\<lambda>xs. count_list xs i) xss)"
  by (induction xss) simp_all

lemma sum_list_indicator:
  "sum_list (map (\<lambda>k'. if k = k' then 1 else 0) ks) = count_list ks k"
  by (induction ks) auto

lemma count_neighbors_self:
  assumes "i < length ps"
  shows "count_list (getNeighbors cs (rebuild cs ps) (x (ps ! i)) (y (ps ! i))) i
     = count_list (block_keys \<lfloor>x (ps ! i) / cs\<rfloor> \<lfloor>y (ps ! i) / cs\<rfloor>)
         (cellKey \<lfloor>x (ps ! i) / cs\<rfloor> \<lfloor>y (ps ! i) / cs\<rfloor>)"
proof -
  let ?ks = "block_keys \<lfloor>x (ps ! i) / cs\<rfloor> \<lfloor>y (ps ! i) / cs\<rfloor>"
  let ?k = "cellKey \<lfloor>x (ps ! i) / cs\<rfloor> \<lfloor>y (ps ! i) / cs\<rfloor>"
  have "count_list (getNeighbors cs (rebuild cs ps) (x (ps ! i)) (y (ps ! i))) i
      = sum_list (map (\<lambda>k'. if ?k = k' then 1 else 0) ?ks)"
    using assms
    by (simp add: getNeighbors_block_keys count_concat comp_def count_bucket_rebuild getKey_def)
  then show ?thesis by (simp only: sum_list_indicator)
qed

lemma poly6_far: "H2 \<le> r2 \<Longrightarrow> poly6 r2 = 0"
  by (simp add: poly6_def)

lemma density_sum_isolated:
  assumes "\<And>j. j \<in> set js \<Longrightarrow> j \<noteq> i \<Longrightarrow> H2 \<le> dist2 (ps ! i) (ps ! j)"
  shows "density_sum ps i js = real (count_list js i) * self_density"
  using assms
proof (induction js)
  case Nil
  show ?case by (simp add: density_sum_def)
next
  case (Cons j js)
  have IH: "density_sum ps i js = real (count_list js i) * self_density"
    using Cons by simp
  have step: "density_sum ps i (j # js) = poly6 (dist2 (ps ! i) (ps ! j)) + density_sum ps i js"
    by (simp add: density_sum_def)
  show ?case
  proof (cases "j = i")
    case True
    then show ?thesis
      unfolding step IH by (simp add: dist2_same_position poly6_0 algebra_simps)
  next
    case False
    then have "poly6 (dist2 (ps ! i) (ps ! j)) = 0"
      using Cons.prems [of j] by (simp add: poly6_far)
    with False show ?thesis unfolding step IH by simp
  qed
qed

lemma isolated_density_count:
  assumes "hash_current s" and "i < length (particles s)"
    and "\<And>j. j < length (particles s) \<Longrightarrow> j \<noteq> i \<Longrightarrow>
           H2 \<le> dist2 (particles s ! i) (particles s ! j)"
  shows "density (particles (computeDensityPressure s) ! i)
     = real (count_list (block_keys \<lfloor>x (particles s ! i) / H\<rfloor> \<lfloor>y (particles s ! i) / H\<rfloor>)
               (cellKey \<lfloor>x (particles s ! i) / H\<rfloor> \<lfloor>y (particles s ! i) / H\<rfloor>))
       * self_density"
proof -
  let ?ps = "particles s"
  let ?js = "getNeighbors H (rebuild H ?ps) (x (?ps ! i)) (y (?ps ! i))"
  have "density_sum ?ps i ?js = real (count_list ?js i) * self_density"
  proof (rule density_sum_isolated)
    fix j assume "j \<in> set ?js" and "j \<noteq> i"
    moreover from \<open>j \<in> set ?js\<close> have "j < length ?ps"
      using getNeighbors_rebuild_range by blast
    ultimately show "H2 \<le> dist2 (?ps ! i) (?ps ! j)" by (intro assms(3))
  qed
  then show ?thesis
    by (simp add: density_after_pass [OF assms(1,2)] count_neighbors_self [OF assms(2)])
qed

lemma isolated_density:
  assumes "hash_current s" and "i < length (particles s)"
    and "\<And>j. j < length (particles s) \<Longrightarrow> j \<noteq> i \<Longrightarrow>
           H2 \<le> dist2 (particles s ! i) (particles s ! j)"
    and "count_list (block_keys \<lfloor>x (particles s ! i) / H\<rfloor> \<lfloor>y (particles s ! i) / H\<rfloor>)
           (cellKey \<lfloor>x (particles s ! i) / H\<rfloor> \<lfloor>y (particles s ! i) / H\<rfloor>) = 1"
  shows "density (particles (computeDensityPressure s) ! i) = self_density"
    and "pressure (particles (computeDensityPressure s) ! i)
           = GAS_CONSTANT * (self_density - REST_DENSITY)"
proof -
  show "density (particles (computeDensityPressure s) ! i) = self_density"
    by (simp add: isolated_density_count [OF assms(1-3)] assms(4))
  then show "pressure (particles (computeDensityPressure s) ! i)
           = GAS_CONSTANT * (self_density - REST_DENSITY)"
    by (simp add: computeDensityPressure_particle [OF assms(1,2)] with_density_density)
qed

lemma own_key_once_example: "count_list (block_keys 2 2) (cellKey 2 2) = 1"
  by (simp add: block_keys_def cellKey_def)

lemma own_key_twice_example: "count_list (block_keys 32399 124734) (cellKey 32399 124734) = 2"
  by (simp add: block_keys_def cellKey_def)

text \<open>
  Around the cell \<open>(0, 0)\<close> the own key occurs once, but the cells \<open>(- 1, - 1)\<close> and \<open>(1, 1)\<close>
  share a key, and so do \<open>(- 1, 1)\<close> and \<open>(1, - 1)\<close>: a query from the cell \<open>(0, 0)\<close> returns
  the particles of the cell \<open>(1, 1)\<close> twice.
\<close>

lemma corner_block_keys:
  "count_list (block_keys 0 0) (cellKey 0 0) = 1"
  "cellKey (- 1) (- 1) = cellKey 1 1" "cellKey (- 1) 1 = cellKey 1 (- 1)"
  by (simp_all add: block_keys_def cellKey_def)

section \<open>A particle whose cell shares its key with a neighbouring cell\<close>

lemma far_fields: "x far_particle = 1133975" "y far_particle = 4365700"
  by (simp_all add: far_particle_def createParticle_def)

lemma far_hash_current: "hash_current far_state"
  by (simp add: hash_current_def far_state_def)

lemma far_neighbors:
  "getNeighbors H (rebuild H [far_particle]) 1133975 4365700 = [0, 0]"
  by (simp add: getNeighbors_def rebuild_def insert_hash_def getKey_def cellKey_def
      bucket_def clear_def H_def Let_def far_fields)

text \<open>
  C4 at a failing input. The cells \<open>(32399, 124734)\<close> and \<open>(32400, 124735)\<close> have the same key,
  so \<open>getNeighbors\<close> at a particle of the first cell returns the bucket of that particle
  twice; a particle alone there gets twice the self-contribution as its density.
\<close>

theorem isolated_particle_counted_twice:
  "length (particles far_state) = 1 \<and>
   cellKey 32399 124734 = cellKey 32400 124735 \<and>
   getNeighbors H (spatialHash far_state) (x (particles far_state ! 0)) (y (particles far_state ! 0))
     = [0, 0] \<and>
   density (particles (computeDensityPressure far_state) ! 0) = 2 * self_density \<and>
   pressure (particles (computeDensityPressure far_state) ! 0)
     = GAS_CONSTANT * (2 * self_density - REST_DENSITY)"
proof -
  have ps: "particles far_state = [far_particle]" "spatialHash far_state = rebuild H [far_particle]"
    by (simp_all add: far_state_def)
  have 0: "(0::nat) < length (particles far_state)" by (simp add: ps)
  have w: "with_density (rebuild H [far_particle]) [far_particle] 0
      = far_particle\<lparr>density := 2 * self_density,
           pressure := GAS_CONSTANT * (2 * self_density - REST_DENSITY)\<rparr>"
    by (simp add: with_density_def far_fields far_neighbors density_sum_def dist2_def poly6_0
        Let_def)
  have p: "particles (computeDensityPressure far_state) ! 0
      = far_particle\<lparr>density := 2 * self_density,
           pressure := GAS_CONSTANT * (2 * self_density - REST_DENSITY)\<rparr>"
    using computeDensityPressure_particle [OF far_hash_current 0] by (simp add: ps w)
  show ?thesis
    by (simp add: p ps far_fields far_neighbors) (simp add: cellKey_def)
qed

end
